theory Spec2Isabelle
  imports Complex_Main "HOL-Library.Word" "HOL-Library.Signed_Division"
begin

section \<open>Data model\<close>

text \<open>
  The frame classifier and extraction state machine of \<^verbatim>\<open>main.cpp\<close>.

  A pixel buffer is the memory reached from a \<^verbatim>\<open>unsigned char *\<close>: a byte for
  every offset from the pointer. Pointer arithmetic \<^verbatim>\<open>data + k\<close> shifts the offsets.
  The program reads and writes inside the frame only when the rectangles lie within it;
  a buffer here has a byte at every offset, so the results below hold for every
  rectangle, within the frame or not.

  C \<^verbatim>\<open>int\<close> values are unbounded integers (no computation of the program comes
  near \<open>2 ^ 31\<close> on a real frame). \<^verbatim>\<open>double\<close> values are the reals they denote.
  The tolerance of the sampler is any \<^verbatim>\<open>double\<close> the caller passes, so its product
  with a pixel count is rounded as the machine rounds it (\<open>round_double\<close> below).
  The other products of the program are a scale factor \<open>k / 256\<close> times a whole
  constant or times such a product again; they are exact for every frame less than ten
  million pixels wide and are left unrounded.

  The functions keep their scale and their rectangle in \<^verbatim>\<open>static\<close> locals, set at
  the first call from a top screen that is the same at every call; here they are
  computed from the argument.
\<close>

type_synonym byte = "8 word"
type_synonym buffer = "int \<Rightarrow> byte"

definition ptr_add :: "buffer \<Rightarrow> int \<Rightarrow> buffer" where
  "ptr_add data k = (\<lambda>j. data (k + j))"

record coords =
  x :: int
  y :: int

record rectangle_coords =
  top_left :: coords
  x_size :: int
  y_size :: int
  magnification :: real

text \<open>The two fields of the decoder context that the program reads.\<close>

record AVCodecContext =
  width :: int
  height :: int

text \<open>\<^verbatim>\<open>std::round\<close>: to the nearest integer, halfway cases away from zero.\<close>

definition std_round :: "real \<Rightarrow> real" where
  "std_round v = (if 0 \<le> v then of_int \<lfloor>v + 1 / 2\<rfloor> else - of_int \<lfloor>- v + 1 / 2\<rfloor>)"

text \<open>Conversion of a \<^verbatim>\<open>double\<close> to \<^verbatim>\<open>int\<close>: truncation towards zero.\<close>

definition to_int :: "real \<Rightarrow> int" where
  "to_int v = (if 0 \<le> v then \<lfloor>v\<rfloor> else \<lceil>v\<rceil>)"

text \<open>
  Rounding of a real to the nearest \<^verbatim>\<open>double\<close> (IEEE 754 binary64, ties to the even
  significand), as a multiplication of two doubles does with its exact product. A double
  is a whole multiple of the quantum of its binade, \<open>2\<close> to the power of the binade's
  exponent less 52, with the exponent at least \<open>- 1022\<close>. A product beyond the range of
  the format becomes infinite on the machine; here it stays the large number it is,
  which compares with a pixel count in the same way.
\<close>

definition round_half_even :: "real \<Rightarrow> int" where
  "round_half_even v =
     (if v - of_int \<lfloor>v\<rfloor> < 1 / 2 then \<lfloor>v\<rfloor>
      else if 1 / 2 < v - of_int \<lfloor>v\<rfloor> then \<lfloor>v\<rfloor> + 1
      else if even \<lfloor>v\<rfloor> then \<lfloor>v\<rfloor> else \<lfloor>v\<rfloor> + 1)"

definition binade :: "real \<Rightarrow> int" where
  "binade v = max \<lfloor>log 2 \<bar>v\<bar>\<rfloor> (- 1022)"

definition round_double :: "real \<Rightarrow> real" where
  "round_double v =
     (if v = 0 then 0
      else 2 powi (binade v - 52) * of_int (round_half_even (v / 2 powi (binade v - 52))))"

section \<open>Geometry: \<^verbatim>\<open>top_screen_coords\<close>\<close>

definition top_screen_coords :: "AVCodecContext \<Rightarrow> rectangle_coords" where
  "top_screen_coords dec_ctx =
     \<lparr> top_left = \<lparr> x = width dec_ctx sdiv 4, y = 0 \<rparr>,
       x_size = width dec_ctx - width dec_ctx sdiv 4,
       y_size = height dec_ctx,
       magnification = real_of_int (width dec_ctx - width dec_ctx sdiv 4) / 256 \<rparr>"

section \<open>Region sampler: \<^verbatim>\<open>white_rectangle\<close>\<close>

text \<open>The test of one pixel, three bytes from \<open>pixel[j]\<close> on.\<close>

definition white_pixel :: "buffer \<Rightarrow> int \<Rightarrow> int \<Rightarrow> bool" where
  "white_pixel pixel j color_intensity \<longleftrightarrow>
     uint (pixel j) > color_intensity \<and> uint (pixel (j + 1)) > color_intensity
       \<and> uint (pixel (j + 2)) > color_intensity"

text \<open>The inner loop over \<open>j\<close>, carrying the counters \<open>(white, not_white)\<close>.\<close>

function white_rectangle_row :: "buffer \<Rightarrow> int \<Rightarrow> int \<Rightarrow> int \<Rightarrow> int \<times> int \<Rightarrow> int \<times> int" where
  "white_rectangle_row pixel xs color_intensity j (white, not_white) =
     (if j < 3 * xs
      then white_rectangle_row pixel xs color_intensity (j + 3)
             (if white_pixel pixel j color_intensity
              then (white + 1, not_white) else (white, not_white + 1))
      else (white, not_white))"
  by pat_completeness auto
termination
  by (relation "measure (\<lambda>(pixel, xs, c, j, acc). nat (3 * xs - j))") auto

text \<open>The outer loop over the rows \<open>i\<close>.\<close>

function white_rectangle_rows ::
  "buffer \<Rightarrow> int \<Rightarrow> rectangle_coords \<Rightarrow> int \<Rightarrow> int \<Rightarrow> int \<times> int \<Rightarrow> int \<times> int" where
  "white_rectangle_rows data wrap rectangle color_intensity i counts =
     (if i < y (top_left rectangle) + y_size rectangle
      then white_rectangle_rows data wrap rectangle color_intensity (i + 1)
             (white_rectangle_row (ptr_add data (i * wrap + 3 * x (top_left rectangle)))
                (x_size rectangle) color_intensity 0 counts)
      else counts)"
  by pat_completeness auto
termination
  by (relation "measure (\<lambda>(data, wrap, r, c, i, acc). nat (y (top_left r) + y_size r - i))") auto

text \<open>
  The final test: the count \<open>not_white\<close> is converted to \<^verbatim>\<open>double\<close>, multiplied
  by the tolerance with the rounding of the machine, and compared with \<open>white\<close>.
\<close>

definition white_rectangle :: "buffer \<Rightarrow> int \<Rightarrow> rectangle_coords \<Rightarrow> real \<Rightarrow> int \<Rightarrow> bool" where
  "white_rectangle data wrap rectangle non_white_strictness color_intensity =
     (case white_rectangle_rows data wrap rectangle color_intensity (y (top_left rectangle)) (0, 0)
      of (white, not_white) \<Rightarrow>
        if round_double (non_white_strictness * real_of_int not_white) > real_of_int white
        then False else True)"

section \<open>Frame classifier: \<^verbatim>\<open>textbox\<close>\<close>

text \<open>
  The strips that \<^verbatim>\<open>textbox\<close> builds from the top screen. The aggregate
  initialisers leave the \<open>magnification\<close> member of each strip at its default 0.
\<close>

definition x_white_start :: "rectangle_coords \<Rightarrow> int" where
  "x_white_start top_screen =
     to_int (real_of_int (x (top_left top_screen)) + std_round (magnification top_screen * 28))"

definition x_white_length :: "rectangle_coords \<Rightarrow> int" where
  "x_white_length top_screen = to_int (std_round (magnification top_screen * 166))"

text \<open>A horizontal strip at reference row \<open>row\<close>, \<open>rows\<close> reference pixels high.\<close>

definition white_line :: "rectangle_coords \<Rightarrow> real \<Rightarrow> real \<Rightarrow> rectangle_coords" where
  "white_line top_screen row rows =
     \<lparr> top_left = \<lparr> x = x_white_start top_screen,
                    y = to_int (real_of_int (y (top_left top_screen))
                          + std_round (magnification top_screen * row)) \<rparr>,
       x_size = x_white_length top_screen,
       y_size = to_int (std_round (magnification top_screen * rows)),
       magnification = 0 \<rparr>"

definition bottom_white_line :: "rectangle_coords \<Rightarrow> rectangle_coords" where
  "bottom_white_line top_screen = white_line top_screen 183 1"

definition left_border :: "rectangle_coords \<Rightarrow> rectangle_coords" where
  "left_border top_screen =
     \<lparr> top_left = \<lparr> x = x (top_left top_screen),
                    y = to_int (real_of_int (y (top_left top_screen))
                          + std_round (magnification top_screen * 144)) \<rparr>,
       x_size = to_int (std_round (magnification top_screen * 8)),
       y_size = to_int (real_of_int (y_size top_screen) - std_round (magnification top_screen * 144)),
       magnification = 0 \<rparr>"

definition right_border :: "rectangle_coords \<Rightarrow> rectangle_coords" where
  "right_border top_screen =
     \<lparr> top_left = \<lparr> x = to_int (real_of_int (x (top_left top_screen) + x_size top_screen)
                          - std_round (magnification top_screen * 8)),
                    y = to_int (real_of_int (y (top_left top_screen))
                          + std_round (magnification top_screen * 144)) \<rparr>,
       x_size = to_int (std_round (magnification top_screen * 8)),
       y_size = to_int (real_of_int (y_size top_screen) - std_round (magnification top_screen * 144)),
       magnification = 0 \<rparr>"

definition mid_white_line :: "rectangle_coords \<Rightarrow> rectangle_coords" where
  "mid_white_line top_screen = white_line top_screen 168 1"

definition extra_bottom_white_line :: "rectangle_coords \<Rightarrow> rectangle_coords" where
  "extra_bottom_white_line top_screen = white_line top_screen 182 2"

definition mid_white_line_2 :: "rectangle_coords \<Rightarrow> rectangle_coords" where
  "mid_white_line_2 top_screen = white_line top_screen 164 1"

definition mid_white_line_3 :: "rectangle_coords \<Rightarrow> rectangle_coords" where
  "mid_white_line_3 top_screen = white_line top_screen 160 1"

definition mid_white_line_4 :: "rectangle_coords \<Rightarrow> rectangle_coords" where
  "mid_white_line_4 top_screen = white_line top_screen 156 1"

definition top_white_line :: "rectangle_coords \<Rightarrow> rectangle_coords" where
  "top_white_line top_screen = white_line top_screen 152 1"

text \<open>
  A call of \<^verbatim>\<open>white_rectangle\<close> from the classifier, recorded: the result of
  the call, and the rectangle appended to the list of rectangles sampled so far.
\<close>

type_synonym samples = "rectangle_coords list"

definition sample ::
  "buffer \<Rightarrow> int \<Rightarrow> rectangle_coords \<Rightarrow> real \<Rightarrow> int \<Rightarrow> samples \<Rightarrow> bool \<times> samples" where
  "sample data wrap rectangle non_white_strictness color_intensity sampled =
     (white_rectangle data wrap rectangle non_white_strictness color_intensity,
      sampled @ [rectangle])"

text \<open>
  \<^verbatim>\<open>white_rectangle(a, 50, 225) == true && white_rectangle(b, 50, 225) == true\<close>:
  the second call is made only when the first returns true.
\<close>

definition both_white ::
  "buffer \<Rightarrow> int \<Rightarrow> rectangle_coords \<Rightarrow> rectangle_coords \<Rightarrow> samples \<Rightarrow> bool \<times> samples" where
  "both_white data wrap a b sampled =
     (case sample data wrap a 50 225 sampled of (ra, sampled_a) \<Rightarrow>
        if ra = True then
          (case sample data wrap b 50 225 sampled_a of (rb, sampled_b) \<Rightarrow> (rb = True, sampled_b))
        else (False, sampled_a))"

text \<open>
  \<^verbatim>\<open>white_rectangle(a, 50, 225) == false && white_rectangle(b, 50, 225) == false
  && white_rectangle(c, 50, 225) == false\<close>, evaluated from the left and stopping at
  the first rectangle that is white.
\<close>

definition none_white ::
  "buffer \<Rightarrow> int \<Rightarrow> rectangle_coords \<Rightarrow> rectangle_coords \<Rightarrow> rectangle_coords
     \<Rightarrow> samples \<Rightarrow> bool \<times> samples" where
  "none_white data wrap a b c sampled =
     (case sample data wrap a 50 225 sampled of (ra, sampled_a) \<Rightarrow>
        if ra = False then
          (case sample data wrap b 50 225 sampled_a of (rb, sampled_b) \<Rightarrow>
             if rb = False then
               (case sample data wrap c 50 225 sampled_b of (rc, sampled_c) \<Rightarrow>
                  (rc = False, sampled_c))
             else (False, sampled_b))
        else (False, sampled_a))"

text \<open>
  The classifier returns its code (0 no textbox, 1 open, 2, 3, 4 the three frames of a
  scroll, 5 large letters) together with the rectangles it sampled, in call order.
  The two diagnostic lines it prints are left out.
\<close>

definition textbox :: "buffer \<Rightarrow> int \<Rightarrow> rectangle_coords \<Rightarrow> int \<times> samples" where
  "textbox data wrap top_screen =
     (case sample data wrap (bottom_white_line top_screen) 1 235 [] of (bottom_white, s1) \<Rightarrow>
      if bottom_white = False then (0, s1) else
      case sample data wrap (left_border top_screen) 1 235 s1 of (left_white, s2) \<Rightarrow>
      if left_white = True then (0, s2) else
      case sample data wrap (right_border top_screen) 1 235 s2 of (right_white, s3) \<Rightarrow>
      if right_white = True then (0, s3) else
      case sample data wrap (mid_white_line top_screen) 50 225 s3 of (mid_white, s4) \<Rightarrow>
      if mid_white = False then
        (case both_white data wrap (extra_bottom_white_line top_screen)
                (mid_white_line_2 top_screen) s4 of (frame_1, s5) \<Rightarrow>
         if frame_1 then (2, s5) else
         case both_white data wrap (extra_bottom_white_line top_screen)
                (mid_white_line_3 top_screen) s5 of (frame_2, s6) \<Rightarrow>
         if frame_2 then (3, s6) else
         case both_white data wrap (extra_bottom_white_line top_screen)
                (mid_white_line_4 top_screen) s6 of (frame_3, s7) \<Rightarrow>
         if frame_3 then (4, s7) else
         case none_white data wrap (mid_white_line_2 top_screen) (mid_white_line_3 top_screen)
                (mid_white_line_4 top_screen) s7 of (no_mid, s8) \<Rightarrow>
         if no_mid then
           (case sample data wrap (top_white_line top_screen) 50 225 s8 of (top_white, s9) \<Rightarrow>
              if top_white = True then (5, s9) else (0, s9))
         else (0, s8))
      else
        (case sample data wrap (top_white_line top_screen) 50 225 s4 of (top_white, s5) \<Rightarrow>
           if top_white = True then (1, s5) else (0, s5)))"

section \<open>The textbox content rectangle, emptiness test and change detector\<close>

text \<open>
  The rectangle that \<^verbatim>\<open>empty_textbox\<close>, \<^verbatim>\<open>compare_textboxes\<close>,
  \<^verbatim>\<open>save_textbox\<close> and \<^verbatim>\<open>copy_data\<close> each build with the same
  initialiser (\<open>rectangle\<close> in the first, \<open>part\<close> in the others), and the one
  of \<^verbatim>\<open>save_second_line\<close>.
\<close>

definition textbox_part :: "rectangle_coords \<Rightarrow> rectangle_coords" where
  "textbox_part top_screen =
     \<lparr> top_left = \<lparr> x = to_int (real_of_int (x (top_left top_screen))
                          + std_round (magnification top_screen * 13)),
                    y = to_int (real_of_int (y (top_left top_screen))
                          + std_round (magnification top_screen * 152)) \<rparr>,
       x_size = to_int (std_round (magnification top_screen * 220)),
       y_size = to_int (std_round (magnification top_screen * 33)),
       magnification = 0 \<rparr>"

definition second_line_part :: "rectangle_coords \<Rightarrow> rectangle_coords" where
  "second_line_part top_screen =
     \<lparr> top_left = \<lparr> x = to_int (real_of_int (x (top_left top_screen))
                          + std_round (magnification top_screen * 13)),
                    y = to_int (real_of_int (y (top_left top_screen))
                          + std_round (magnification top_screen * 168)) \<rparr>,
       x_size = to_int (std_round (magnification top_screen * 220)),
       y_size = to_int (std_round (magnification top_screen * 17)),
       magnification = 0 \<rparr>"

definition empty_textbox :: "buffer \<Rightarrow> int \<Rightarrow> rectangle_coords \<Rightarrow> bool" where
  "empty_textbox data wrap top_screen =
     white_rectangle data wrap (textbox_part top_screen) 40 235"

text \<open>The absolute difference of one channel, as the three \<^verbatim>\<open>if\<close>/\<^verbatim>\<open>else\<close> compute it.\<close>

definition channel_difference :: "byte \<Rightarrow> byte \<Rightarrow> int" where
  "channel_difference old new =
     (if uint old > uint new then uint old - uint new else uint new - uint old)"

definition changed_pixel :: "buffer \<Rightarrow> buffer \<Rightarrow> int \<Rightarrow> bool" where
  "changed_pixel pixel_old pixel_new j \<longleftrightarrow>
     channel_difference (pixel_old j) (pixel_new j) > 50
     \<or> channel_difference (pixel_old (j + 1)) (pixel_new (j + 1)) > 50
     \<or> channel_difference (pixel_old (j + 2)) (pixel_new (j + 2)) > 50"

function compare_textboxes_row :: "buffer \<Rightarrow> buffer \<Rightarrow> int \<Rightarrow> int \<Rightarrow> int \<Rightarrow> int" where
  "compare_textboxes_row pixel_old pixel_new xs j changed_pixels =
     (if j < 3 * xs
      then compare_textboxes_row pixel_old pixel_new xs (j + 3)
             (if changed_pixel pixel_old pixel_new j then changed_pixels + 1 else changed_pixels)
      else changed_pixels)"
  by pat_completeness auto
termination
  by (relation "measure (\<lambda>(pixel_old, pixel_new, xs, j, n). nat (3 * xs - j))") auto

function compare_textboxes_rows ::
  "buffer \<Rightarrow> buffer \<Rightarrow> int \<Rightarrow> rectangle_coords \<Rightarrow> int \<Rightarrow> int \<Rightarrow> int" where
  "compare_textboxes_rows data_old data_new wrap part i changed_pixels =
     (if i < y (top_left part) + y_size part
      then compare_textboxes_rows data_old data_new wrap part (i + 1)
             (compare_textboxes_row (ptr_add data_old (i * wrap + 3 * x (top_left part)))
                (ptr_add data_new (i * wrap + 3 * x (top_left part))) (x_size part) 0
                changed_pixels)
      else changed_pixels)"
  by pat_completeness auto
termination
  by (relation "measure (\<lambda>(data_old, data_new, wrap, part, i, n).
        nat (y (top_left part) + y_size part - i))") auto

text \<open>
  The threshold \<open>300 * magnification * magnification\<close> is exact for the scale of
  every real frame (lemma \<open>scale_products_exact\<close> below) and is left unrounded.
\<close>

definition compare_textboxes :: "buffer \<Rightarrow> buffer \<Rightarrow> int \<Rightarrow> rectangle_coords \<Rightarrow> bool" where
  "compare_textboxes data_old data_new wrap top_screen =
     (let part = textbox_part top_screen;
          changed_pixels =
            compare_textboxes_rows data_old data_new wrap part (y (top_left part)) 0
      in if real_of_int changed_pixels
              > 300 * magnification top_screen * magnification top_screen
         then True else False)"

section \<open>Captures: \<^verbatim>\<open>save_textbox\<close>, \<^verbatim>\<open>save_second_line\<close>, \<^verbatim>\<open>read_text\<close>\<close>

text \<open>
  The image file that a save writes: the two sizes of its header and the bytes that
  follow. \<^verbatim>\<open>fwrite(pixel, 1, n, file)\<close> writes the \<open>n\<close> bytes from \<open>pixel\<close> on.
\<close>

record ppm =
  ppm_x_size :: int
  ppm_y_size :: int
  ppm_bytes :: "byte list"

definition fwrite :: "buffer \<Rightarrow> int \<Rightarrow> byte list" where
  "fwrite pixel n = map pixel [0..n - 1]"

function save_rows :: "buffer \<Rightarrow> int \<Rightarrow> rectangle_coords \<Rightarrow> int \<Rightarrow> byte list \<Rightarrow> byte list" where
  "save_rows data wrap part i written =
     (if i < y (top_left part) + y_size part
      then save_rows data wrap part (i + 1)
             (written @ fwrite (ptr_add data (i * wrap + 3 * x (top_left part))) (3 * x_size part))
      else written)"
  by pat_completeness auto
termination
  by (relation "measure (\<lambda>(data, wrap, part, i, written).
        nat (y (top_left part) + y_size part - i))") auto

definition save_textbox :: "buffer \<Rightarrow> int \<Rightarrow> rectangle_coords \<Rightarrow> ppm" where
  "save_textbox data wrap top_screen =
     (let part = textbox_part top_screen
      in \<lparr> ppm_x_size = x_size part, ppm_y_size = y_size part,
           ppm_bytes = save_rows data wrap part (y (top_left part)) [] \<rparr>)"

definition save_second_line :: "buffer \<Rightarrow> int \<Rightarrow> rectangle_coords \<Rightarrow> ppm" where
  "save_second_line data wrap top_screen =
     (let part = second_line_part top_screen
      in \<lparr> ppm_x_size = x_size part, ppm_y_size = y_size part,
           ppm_bytes = save_rows data wrap part (y (top_left part)) [] \<rparr>)"

section \<open>Frame history: \<^verbatim>\<open>copy_data\<close>\<close>

text \<open>
  The history buffer \<open>old_data\<close> and the current frame \<open>data\<close> are two separate
  allocations: a store into the first leaves the second as it is. The inner loop stores
  through \<open>old_pixel = old_data + offset\<close> and reads through \<open>pixel\<close>.
\<close>

function copy_data_row :: "buffer \<Rightarrow> int \<Rightarrow> buffer \<Rightarrow> int \<Rightarrow> int \<Rightarrow> buffer" where
  "copy_data_row old_data offset pixel xs j =
     (if j < 3 * xs
      then copy_data_row
             (old_data(offset + j := pixel j,
                       offset + (j + 1) := pixel (j + 1),
                       offset + (j + 2) := pixel (j + 2)))
             offset pixel xs (j + 3)
      else old_data)"
  by pat_completeness auto
termination
  by (relation "measure (\<lambda>(old_data, offset, pixel, xs, j). nat (3 * xs - j))") auto

function copy_data_rows :: "buffer \<Rightarrow> buffer \<Rightarrow> int \<Rightarrow> rectangle_coords \<Rightarrow> int \<Rightarrow> buffer" where
  "copy_data_rows old_data data wrap part i =
     (if i < y (top_left part) + y_size part
      then copy_data_rows
             (copy_data_row old_data (i * wrap + 3 * x (top_left part))
                (ptr_add data (i * wrap + 3 * x (top_left part))) (x_size part) 0)
             data wrap part (i + 1)
      else old_data)"
  by pat_completeness auto
termination
  by (relation "measure (\<lambda>(old_data, data, wrap, part, i).
        nat (y (top_left part) + y_size part - i))") auto

definition copy_data :: "buffer \<Rightarrow> buffer \<Rightarrow> int \<Rightarrow> rectangle_coords \<Rightarrow> buffer" where
  "copy_data old_data data wrap top_screen =
     (let part = textbox_part top_screen
      in copy_data_rows old_data data wrap part (y (top_left part)))"

section \<open>Extraction state machine: the body of the frame loop of \<^verbatim>\<open>decode\<close>\<close>

text \<open>
  What the loop body reads and writes besides the current frame: the static locals
  \<open>old_textbox\<close>, \<open>insta_textbox\<close> and \<open>only_second_line\<close> (zero at program start),
  the pixels of \<open>old_frame\<close>, and the text written to the output file so far. Each save
  followed by \<^verbatim>\<open>read_text\<close> is a capture; the state lists them in call order, naming
  the save function and the frame it was given.
\<close>

datatype frame_source = Old_frame | Rgb_frame

datatype capture = Textbox_capture frame_source | Second_line_capture frame_source

record decode_state =
  old_textbox :: int
  insta_textbox :: bool
  only_second_line :: bool
  old_frame :: buffer
  output_file :: string
  captures :: "capture list"

text \<open>
  \<^verbatim>\<open>read_text\<close> loads the image just saved and returns what the recognition
  engine makes of it: a function \<open>ocr\<close> of the saved image, given from outside.
\<close>

type_synonym read_text = "ppm \<Rightarrow> string"

text \<open>
  The block at lines 407 to 421, repeated at lines 425 to 439: capture the previous
  frame, whole or second line only, and write the text and a line end to the file.
\<close>

definition capture_old_frame ::
  "read_text \<Rightarrow> int \<Rightarrow> rectangle_coords \<Rightarrow> decode_state \<Rightarrow> decode_state" where
  "capture_old_frame ocr wrap top_screen s =
     (if only_second_line s = False
      then s\<lparr> output_file := output_file s @ ocr (save_textbox (old_frame s) wrap top_screen) @ [CHR 0x0A],
              captures := captures s @ [Textbox_capture Old_frame] \<rparr>
      else s\<lparr> output_file := output_file s @ ocr (save_second_line (old_frame s) wrap top_screen) @ [CHR 0x0A],
              captures := captures s @ [Second_line_capture Old_frame],
              only_second_line := False \<rparr>)"

text \<open>
  The block at lines 393 to 400, repeated at lines 441 to 446: capture the current
  frame and set or clear \<open>insta_textbox\<close>.
\<close>

definition capture_rgb_frame ::
  "read_text \<Rightarrow> buffer \<Rightarrow> int \<Rightarrow> rectangle_coords \<Rightarrow> decode_state \<Rightarrow> decode_state" where
  "capture_rgb_frame ocr data wrap top_screen s =
     (let text = ocr (save_textbox data wrap top_screen);
          s1 = s\<lparr> captures := captures s @ [Textbox_capture Rgb_frame] \<rparr>
      in if empty_textbox data wrap top_screen then s1\<lparr> insta_textbox := False \<rparr>
         else if length text > 3 then s1\<lparr> insta_textbox := True \<rparr>
         else s1)"

text \<open>
  The four \<^verbatim>\<open>if\<close> statements under \<open>old_textbox == 1 || old_textbox == 5\<close>, in
  the order of the source: the textbox closed (line 405), its content changed (line
  423), it changed while \<open>insta_textbox\<close> was set (line 448), a scroll began (line
  452). The last one writes the text without a line end.
\<close>

definition textbox_closed ::
  "read_text \<Rightarrow> rectangle_coords \<Rightarrow> int \<Rightarrow> int \<Rightarrow> decode_state \<Rightarrow> decode_state" where
  "textbox_closed ocr top_screen wrap new_textbox s =
     (if new_textbox = 0 \<and> insta_textbox s = False
      then capture_old_frame ocr wrap top_screen s else s)"

definition textbox_changed ::
  "read_text \<Rightarrow> rectangle_coords \<Rightarrow> int \<Rightarrow> buffer \<Rightarrow> int \<Rightarrow> decode_state \<Rightarrow> decode_state" where
  "textbox_changed ocr top_screen wrap data new_textbox s =
     (if (new_textbox = 1 \<or> new_textbox = 5)
         \<and> compare_textboxes (old_frame s) data wrap top_screen
         \<and> insta_textbox s = False
      then capture_rgb_frame ocr data wrap top_screen (capture_old_frame ocr wrap top_screen s)
      else s)"

definition insta_textbox_changed ::
  "rectangle_coords \<Rightarrow> int \<Rightarrow> buffer \<Rightarrow> int \<Rightarrow> decode_state \<Rightarrow> decode_state" where
  "insta_textbox_changed top_screen wrap data new_textbox s =
     (if (new_textbox = 1 \<or> new_textbox = 5)
         \<and> compare_textboxes (old_frame s) data wrap top_screen
         \<and> insta_textbox s = True
      then s\<lparr> insta_textbox := False \<rparr> else s)"

definition scroll_began ::
  "read_text \<Rightarrow> rectangle_coords \<Rightarrow> int \<Rightarrow> int \<Rightarrow> decode_state \<Rightarrow> decode_state" where
  "scroll_began ocr top_screen wrap new_textbox s =
     (if (new_textbox = 2 \<or> new_textbox = 3 \<or> new_textbox = 4) \<and> insta_textbox s = False
      then s\<lparr> output_file := output_file s @ ocr (save_textbox (old_frame s) wrap top_screen),
              captures := captures s @ [Textbox_capture Old_frame] \<rparr>
      else s)"

text \<open>
  Lines 388 to 469 for a frame whose classification is \<open>new_textbox\<close>: the branch
  on \<open>old_textbox\<close>, the reset of \<open>insta_textbox\<close> when no textbox is seen, and the
  update of the history.
\<close>

definition decode_step ::
  "read_text \<Rightarrow> rectangle_coords \<Rightarrow> int \<Rightarrow> buffer \<Rightarrow> int \<Rightarrow> decode_state \<Rightarrow> decode_state" where
  "decode_step ocr top_screen wrap data new_textbox s =
     (let s1 =
        (if old_textbox s = 0 then
           (if new_textbox = 1 \<or> new_textbox = 5
            then capture_rgb_frame ocr data wrap top_screen s else s)
         else if old_textbox s = 1 \<or> old_textbox s = 5 then
           scroll_began ocr top_screen wrap new_textbox
             (insta_textbox_changed top_screen wrap data new_textbox
                (textbox_changed ocr top_screen wrap data new_textbox
                   (textbox_closed ocr top_screen wrap new_textbox s)))
         else if old_textbox s = 2 \<or> old_textbox s = 3 \<or> old_textbox s = 4 then
           s\<lparr> only_second_line := True \<rparr>
         else s);
          s2 = (if new_textbox = 0 then s1\<lparr> insta_textbox := False \<rparr> else s1)
      in s2\<lparr> old_frame := copy_data (old_frame s2) data wrap top_screen,
             old_textbox := new_textbox \<rparr>)"

text \<open>The loop body from line 377 on: classify the current frame, then the above.\<close>

definition decode_frame ::
  "read_text \<Rightarrow> rectangle_coords \<Rightarrow> int \<Rightarrow> buffer \<Rightarrow> decode_state \<Rightarrow> decode_state" where
  "decode_frame ocr top_screen wrap data s =
     decode_step ocr top_screen wrap data (fst (textbox data wrap top_screen)) s"

text \<open>
  The state before the first frame: the statics are zero, the output file is empty and
  nothing has been captured; the pixels of the freshly allocated \<open>old_frame\<close> are
  whatever the allocation left there.
\<close>

definition initial_state :: "buffer \<Rightarrow> decode_state" where
  "initial_state allocated =
     \<lparr> old_textbox = 0, insta_textbox = False, only_second_line = False,
       old_frame = allocated, output_file = [], captures = [] \<rparr>"

declare white_rectangle_row.simps [simp del] white_rectangle_rows.simps [simp del]
  compare_textboxes_row.simps [simp del] compare_textboxes_rows.simps [simp del]
  save_rows.simps [simp del] copy_data_row.simps [simp del] copy_data_rows.simps [simp del]

section \<open>What the loops are specified to compute\<close>

text \<open>
  The pixels of a rectangle, as pairs of a frame row \<open>i\<close> and a column \<open>p\<close> counted
  from the left edge of the rectangle, and the offset of the first byte of such a pixel.
\<close>

definition rectangle_pixels :: "rectangle_coords \<Rightarrow> (int \<times> int) set" where
  "rectangle_pixels rectangle =
     {y (top_left rectangle) ..< y (top_left rectangle) + y_size rectangle}
       \<times> {0 ..< x_size rectangle}"

definition pixel_offset :: "int \<Rightarrow> rectangle_coords \<Rightarrow> int \<times> int \<Rightarrow> int" where
  "pixel_offset wrap rectangle ip =
     fst ip * wrap + 3 * x (top_left rectangle) + 3 * snd ip"

text \<open>
  The counts of the specification, stated on the bytes of the buffer: a pixel is white
  when each of its three channels is strictly above the threshold, and not white
  otherwise.
\<close>

definition white_count :: "buffer \<Rightarrow> int \<Rightarrow> rectangle_coords \<Rightarrow> int \<Rightarrow> nat" where
  "white_count data wrap rectangle color_intensity =
     card {ip \<in> rectangle_pixels rectangle.
             \<forall>ch\<in>{0, 1, 2}. color_intensity < uint (data (pixel_offset wrap rectangle ip + ch))}"

definition not_white_count :: "buffer \<Rightarrow> int \<Rightarrow> rectangle_coords \<Rightarrow> int \<Rightarrow> nat" where
  "not_white_count data wrap rectangle color_intensity =
     card {ip \<in> rectangle_pixels rectangle.
             \<not> (\<forall>ch\<in>{0, 1, 2}. color_intensity < uint (data (pixel_offset wrap rectangle ip + ch)))}"

text \<open>
  The number of pixels of the textbox content rectangle whose absolute difference
  between the two frames is above 50 in at least one of the three channels.
\<close>

definition changed_count :: "buffer \<Rightarrow> buffer \<Rightarrow> int \<Rightarrow> rectangle_coords \<Rightarrow> nat" where
  "changed_count data_old data_new wrap top_screen =
     card {ip \<in> rectangle_pixels (textbox_part top_screen).
             \<exists>ch\<in>{0, 1, 2}.
               50 < \<bar>uint (data_old (pixel_offset wrap (textbox_part top_screen) ip + ch))
                      - uint (data_new (pixel_offset wrap (textbox_part top_screen) ip + ch))\<bar>}"

text \<open>The byte offsets that belong to a rectangle: three for each of its pixels.\<close>

definition rectangle_bytes :: "int \<Rightarrow> rectangle_coords \<Rightarrow> int set" where
  "rectangle_bytes wrap rectangle =
     {k. \<exists>i j. k = i * wrap + 3 * x (top_left rectangle) + j
            \<and> y (top_left rectangle) \<le> i \<and> i < y (top_left rectangle) + y_size rectangle
            \<and> 0 \<le> j \<and> j < 3 * x_size rectangle}"

section \<open>Example inputs\<close>

text \<open>
  Frames of one colour, a stream of 22 by 13 pixels (its strips of height 1 at reference
  scale round to height 0, its borders are one pixel wide), and recognition engines
  that read the same text in every image.
\<close>

abbreviation black_frame :: buffer where
  "black_frame \<equiv> (\<lambda>k. 0)"

abbreviation white_frame :: buffer where
  "white_frame \<equiv> (\<lambda>k. 255)"

abbreviation small_screen :: rectangle_coords where
  "small_screen \<equiv> top_screen_coords \<lparr>width = 22, height = 13\<rparr>"

abbreviation reads_hello :: read_text where
  "reads_hello \<equiv> (\<lambda>image. ''Hello'')"

abbreviation reads_abc :: read_text where
  "reads_abc \<equiv> (\<lambda>image. ''abc'')"

section \<open>Rounding to a double\<close>

lemma round_half_even_of_int: "round_half_even (of_int k) = k"
  by (simp add: round_half_even_def)

lemma round_half_even_floor: "\<lfloor>v\<rfloor> \<le> round_half_even v" "round_half_even v \<le> \<lfloor>v\<rfloor> + 1"
  by (simp_all add: round_half_even_def)

lemma round_half_even_lower:
  assumes "of_int k \<le> v" shows "k \<le> round_half_even v"
proof -
  have "k \<le> \<lfloor>v\<rfloor>" using assms by (simp add: le_floor_iff)
  then show ?thesis using round_half_even_floor(1) [of v] by linarith
qed

lemma round_half_even_upper:
  assumes "v \<le> of_int k" shows "round_half_even v \<le> k"
proof (cases "v = of_int k")
  case True
  then show ?thesis by (simp add: round_half_even_of_int)
next
  case False
  then have "v < of_int k" using assms by simp
  then have "\<lfloor>v\<rfloor> < k" by (simp add: floor_less_iff)
  then show ?thesis using round_half_even_floor(2) [of v] by simp
qed

lemma round_half_even_mono:
  assumes "a \<le> b" shows "round_half_even a \<le> round_half_even b"
proof (cases "\<lfloor>a\<rfloor> = \<lfloor>b\<rfloor>")
  case True
  then show ?thesis using assms by (auto simp: round_half_even_def)
next
  case False
  then have "\<lfloor>a\<rfloor> < \<lfloor>b\<rfloor>" using floor_mono [OF assms] by simp
  then show ?thesis
    using round_half_even_floor(2) [of a] round_half_even_floor(1) [of b] by simp
qed

lemma round_half_even_minus: "round_half_even (- v) = - round_half_even v"
proof (cases "v = of_int \<lfloor>v\<rfloor>")
  case True
  then obtain k where "v = of_int k" ..
  then show ?thesis
    using round_half_even_of_int [of "- k"] by (simp add: round_half_even_of_int)
next
  case False
  then have "\<lfloor>- v\<rfloor> = - \<lfloor>v\<rfloor> - 1"
    by (metis ceiling_altdef ceiling_def add_diff_cancel_right' minus_diff_eq uminus_add_conv_diff)
  then show ?thesis
    by (auto simp: round_half_even_def)
qed

lemma binade_minus: "binade (- v) = binade v"
  by (simp add: binade_def)

lemma two_powr_powi: "(2::real) powr real_of_int e = 2 powi e"
  by (simp add: powr_real_of_int')

lemma binade_upper:
  assumes "v \<noteq> 0" shows "\<bar>v\<bar> < 2 powi (binade v + 1)"
proof -
  have "\<bar>v\<bar> < 2 powr (real_of_int \<lfloor>log 2 \<bar>v\<bar>\<rfloor> + 1)"
    using assms floor_log_eq_powr_iff [of "\<bar>v\<bar>" 2 "\<lfloor>log 2 \<bar>v\<bar>\<rfloor>"] by simp
  also have "\<dots> = 2 powi (\<lfloor>log 2 \<bar>v\<bar>\<rfloor> + 1)"
    using two_powr_powi [of "\<lfloor>log 2 \<bar>v\<bar>\<rfloor> + 1"] by simp
  also have "\<dots> \<le> 2 powi (binade v + 1)"
    by (rule power_int_increasing) (simp_all add: binade_def)
  finally show ?thesis .
qed

lemma binade_lower:
  assumes "v \<noteq> 0" "- 1022 < binade v" shows "2 powi (binade v) \<le> \<bar>v\<bar>"
proof -
  have eq: "binade v = \<lfloor>log 2 \<bar>v\<bar>\<rfloor>"
    using assms(2) by (simp add: binade_def max_def split: if_splits)
  have "2 powr real_of_int \<lfloor>log 2 \<bar>v\<bar>\<rfloor> \<le> \<bar>v\<bar>"
    using assms(1) floor_log_eq_powr_iff [of "\<bar>v\<bar>" 2 "\<lfloor>log 2 \<bar>v\<bar>\<rfloor>"] by simp
  then show ?thesis by (simp add: eq two_powr_powi)
qed

lemma binade_mono:
  assumes "0 < a" "a \<le> b" shows "binade a \<le> binade b"
proof -
  have "log 2 \<bar>a\<bar> \<le> log 2 \<bar>b\<bar>" using assms by simp
  then have "\<lfloor>log 2 \<bar>a\<bar>\<rfloor> \<le> \<lfloor>log 2 \<bar>b\<bar>\<rfloor>" by (rule floor_mono)
  then show ?thesis unfolding binade_def by linarith
qed


lemma quantum_split:
  "(2::real) powi (e - 52) * 2 ^ 53 = 2 powi (e + 1)"
  "(2::real) powi (e - 52) * 2 ^ 52 = 2 powi e"
proof -
  have "(2::real) powi ((e - 52) + 53) = 2 powi (e - 52) * 2 powi 53"
    by (rule power_int_add) simp
  moreover have "(e - 52) + 53 = e + 1" by simp
  ultimately show "(2::real) powi (e - 52) * 2 ^ 53 = 2 powi (e + 1)"
    by (metis power_int_numeral)
  have "(2::real) powi ((e - 52) + 52) = 2 powi (e - 52) * 2 powi 52"
    by (rule power_int_add) simp
  moreover have "(e - 52) + 52 = e" by simp
  ultimately show "(2::real) powi (e - 52) * 2 ^ 52 = 2 powi e"
    by (metis power_int_numeral)
qed

lemma round_double_minus: "round_double (- v) = - round_double v"
  by (simp add: round_double_def binade_minus round_half_even_minus)

lemma round_double_nonneg:
  assumes "0 \<le> v" shows "0 \<le> round_double v"
proof (cases "v = 0")
  case True
  then show ?thesis by (simp add: round_double_def)
next
  case False
  have "of_int 0 \<le> v / 2 powi (binade v - 52)" using assms by simp
  then have "0 \<le> round_half_even (v / 2 powi (binade v - 52))"
    by (rule round_half_even_lower)
  then show ?thesis using False by (simp add: round_double_def)
qed

lemma round_double_upper:
  assumes "0 < v" shows "round_double v \<le> 2 powi (binade v + 1)"
proof -
  let ?q = "(2::real) powi (binade v - 52)"
  have q: "0 < ?q" by simp
  have "v < 2 powi (binade v + 1)" using binade_upper [of v] assms by simp
  also have "(2::real) powi (binade v + 1) = ?q * 2 ^ 53"
    by (simp only: quantum_split)
  finally have "v / ?q \<le> of_int (2 ^ 53)"
    using q by (simp add: field_simps)
  then have "round_half_even (v / ?q) \<le> 2 ^ 53" by (rule round_half_even_upper)
  then have "real_of_int (round_half_even (v / ?q)) \<le> 2 ^ 53"
    by (metis of_int_le_iff of_int_numeral of_int_power)
  then have "?q * real_of_int (round_half_even (v / ?q)) \<le> ?q * 2 ^ 53"
    using q by (simp only: mult_le_cancel_left_pos)
  also have "?q * 2 ^ 53 = 2 powi (binade v + 1)"
    by (simp only: quantum_split)
  finally show ?thesis using assms by (simp add: round_double_def)
qed

lemma round_double_lower:
  assumes "0 < v" "- 1022 < binade v" shows "2 powi (binade v) \<le> round_double v"
proof -
  let ?q = "(2::real) powi (binade v - 52)"
  have q: "0 < ?q" by simp
  have split: "(2::real) powi (binade v) = ?q * 2 ^ 52"
    by (simp only: quantum_split)
  have "2 powi (binade v) \<le> v" using binade_lower [of v] assms by simp
  then have "of_int (2 ^ 52) \<le> v / ?q"
    using q by (simp add: split field_simps)
  then have "2 ^ 52 \<le> round_half_even (v / ?q)" by (rule round_half_even_lower)
  then have "2 ^ 52 \<le> real_of_int (round_half_even (v / ?q))"
    by (metis of_int_le_iff of_int_numeral of_int_power)
  then have "?q * 2 ^ 52 \<le> ?q * real_of_int (round_half_even (v / ?q))"
    using q by (simp only: mult_le_cancel_left_pos)
  then show ?thesis using assms by (simp add: round_double_def split)
qed

lemma round_double_mono_pos:
  assumes "0 < a" "a \<le> b" shows "round_double a \<le> round_double b"
proof (cases "binade a = binade b")
  case True
  let ?q = "(2::real) powi (binade b - 52)"
  have "a / ?q \<le> b / ?q" using assms by (simp add: divide_right_mono)
  then have "round_half_even (a / ?q) \<le> round_half_even (b / ?q)"
    by (rule round_half_even_mono)
  then show ?thesis using assms True by (simp add: round_double_def)
next
  case False
  then have lt: "binade a < binade b" using binade_mono [OF assms] by simp
  have "- 1022 \<le> binade a" by (simp add: binade_def)
  then have b: "- 1022 < binade b" using lt by simp
  have "round_double a \<le> 2 powi (binade a + 1)"
    using assms(1) by (rule round_double_upper)
  also have "\<dots> \<le> 2 powi (binade b)"
    by (rule power_int_increasing) (use lt in simp_all)
  also have "\<dots> \<le> round_double b"
    using assms b by (intro round_double_lower) simp_all
  finally show ?thesis .
qed

lemma round_double_mono:
  assumes "a \<le> b" shows "round_double a \<le> round_double b"
proof -
  consider "0 < a" | "a \<le> 0" "0 \<le> b" | "b < 0" by linarith
  then show ?thesis
  proof cases
    case 1
    then show ?thesis using assms by (rule round_double_mono_pos)
  next
    case 2
    have "0 \<le> round_double (- a)" using 2 by (intro round_double_nonneg) simp
    then have "round_double a \<le> 0" by (simp add: round_double_minus)
    also have "0 \<le> round_double b" using 2 by (intro round_double_nonneg)
    finally show ?thesis .
  next
    case 3
    have "round_double (- b) \<le> round_double (- a)"
      using 3 assms by (intro round_double_mono_pos) simp_all
    then show ?thesis by (simp add: round_double_minus)
  qed
qed


lemma round_double_multiple:
  assumes "v / 2 powi (binade v - 52) = of_int m" shows "round_double v = v"
proof (cases "v = 0")
  case True
  then show ?thesis by (simp add: round_double_def)
next
  case False
  have "round_double v = 2 powi (binade v - 52) * (v / 2 powi (binade v - 52))"
    using False by (simp add: round_double_def assms round_half_even_of_int)
  then show ?thesis by simp
qed

lemma binade_of_nat:
  assumes "0 < n" "n \<le> 2 ^ 53" shows "0 \<le> binade (real n)" "binade (real n) \<le> 53"
proof -
  have "0 \<le> log 2 (real n)" using assms(1) by simp
  then have "0 \<le> \<lfloor>log 2 \<bar>real n\<bar>\<rfloor>" by simp
  then show low: "0 \<le> binade (real n)" by (simp add: binade_def)
  have "2 powi binade (real n) \<le> \<bar>real n\<bar>"
    using assms(1) low by (intro binade_lower) simp_all
  also have "\<bar>real n\<bar> \<le> 2 ^ 53"
    using assms(2) by (metis abs_of_nat of_nat_le_iff of_nat_numeral of_nat_power)
  finally have "(2::real) powi binade (real n) \<le> 2 powi 53" by simp
  then show "binade (real n) \<le> 53"
    by (rule power_int_le_imp_le_exp [rotated]) simp_all
qed

lemma round_double_of_nat:
  assumes "n \<le> 2 ^ 53" shows "round_double (real n) = real n"
proof (cases "n = 0")
  case True
  then show ?thesis by (simp add: round_double_def)
next
  case False
  then have pos: "0 < n" by simp
  let ?e = "binade (real n)"
  have e: "0 \<le> ?e" "?e \<le> 53" using binade_of_nat [OF pos assms] by simp_all
  show ?thesis
  proof (cases "?e \<le> 52")
    case True
    have "(2::real) powi (?e - 52) = inverse (2 powi (52 - ?e))"
      using power_int_minus [of "2::real" "52 - ?e"] by simp
    also have "(2::real) powi (52 - ?e) = 2 ^ nat (52 - ?e)"
      using True by (simp add: power_int_def)
    finally have "real n / 2 powi (?e - 52) = real n * 2 ^ nat (52 - ?e)"
      by (simp add: field_simps)
    also have "\<dots> = of_int (int n * 2 ^ nat (52 - ?e))" by simp
    finally show ?thesis by (rule round_double_multiple)
  next
    case False
    then have e53: "?e = 53" using e by simp
    have "2 powi ?e \<le> \<bar>real n\<bar>"
      using pos e by (intro binade_lower) simp_all
    then have "(2::real) ^ 53 \<le> real n" by (simp add: e53)
    moreover have "real n \<le> 2 ^ 53"
      using assms by (metis of_nat_le_iff of_nat_numeral of_nat_power)
    ultimately have n: "real n = 2 ^ 53" by simp
    have "real n / 2 powi (?e - 52) = real n / 2"
      by (simp add: e53)
    also have "\<dots> = of_int (2 ^ 52)"
      by (simp add: n)
    finally show ?thesis by (rule round_double_multiple)
  qed
qed


lemma round_double_zero [simp]: "round_double 0 = 0"
  by (simp add: round_double_def)

lemma round_double_one [simp]: "round_double 1 = 1"
  using round_double_of_nat [of 1] by simp

lemma round_double_numeral [simp]:
  "(numeral k :: nat) \<le> 2 ^ 53 \<Longrightarrow> round_double (numeral k) = numeral k"
  using round_double_of_nat [of "numeral k"] by simp

lemma round_double_positive:
  assumes "1 \<le> v" shows "0 < round_double v"
proof -
  have "round_double 1 \<le> round_double v" using assms by (rule round_double_mono)
  then show ?thesis by simp
qed

text \<open>
  A whole number of absolute value below \<open>2 ^ 53\<close> divided by a power of two is a
  \<^verbatim>\<open>double\<close>. So the products with the scale that the model leaves unrounded are
  exact: an offset \<open>k / 256 * c\<close>, and the threshold \<open>300 * (k / 256) * (k / 256)\<close>
  of the change detector, for every region width \<open>k\<close> with \<open>75 * k * k < 2 ^ 53\<close>,
  which is every \<open>k\<close> up to ten million.
\<close>

lemma round_double_dyadic:
  assumes "\<bar>j\<bar> < 2 ^ 53" "p \<le> 1074"
  shows "round_double (real_of_int j / 2 ^ p) = real_of_int j / 2 ^ p"
proof (cases "j = 0")
  case True
  then show ?thesis by simp
next
  case False
  let ?v = "real_of_int j / 2 ^ p"
  let ?e = "binade ?v"
  have nz: "?v \<noteq> 0" using False by simp
  have "\<bar>real_of_int j\<bar> < 2 ^ 53"
    using assms(1) by (metis of_int_abs of_int_less_iff of_int_numeral of_int_power)
  then have "\<bar>?v\<bar> < 2 ^ 53 / 2 ^ p"
    by (simp add: divide_strict_right_mono)
  also have "(2::real) ^ 53 / 2 ^ p = 2 powi (53 - int p)"
    by (simp add: power_int_diff)
  finally have above: "\<bar>?v\<bar> < 2 powi (53 - int p)" .
  have e: "?e \<le> 52 - int p"
  proof (cases "- 1022 < ?e")
    case True
    then have "2 powi ?e \<le> \<bar>?v\<bar>" using nz by (intro binade_lower)
    then have lt: "(2::real) powi ?e < 2 powi (53 - int p)" using above by simp
    have "?e < 53 - int p"
    proof (rule ccontr)
      assume "\<not> ?e < 53 - int p"
      then have "53 - int p \<le> ?e" by simp
      then have "(2::real) powi (53 - int p) \<le> 2 powi ?e"
        by (rule power_int_increasing) simp
      then show False using lt by simp
    qed
    then show ?thesis by simp
  next
    case False
    moreover have "- 1022 \<le> ?e" by (simp add: binade_def)
    ultimately have "?e = - 1022" by simp
    then show ?thesis using assms(2) by simp
  qed
  have "(2::real) powi (52 - ?e - int p) = 2 powi (- (?e - 52) + - int p)"
    by (simp add: algebra_simps)
  also have "\<dots> = 2 powi (- (?e - 52)) * 2 powi (- int p)"
    by (rule power_int_add) simp
  also have "\<dots> = inverse (2 powi (?e - 52)) * inverse (2 ^ p)"
    by (simp only: power_int_minus power_int_of_nat)
  finally have "?v / 2 powi (?e - 52) = real_of_int j * 2 powi (52 - ?e - int p)"
    by (simp only: divide_inverse mult_ac)
  also have "(2::real) powi (52 - ?e - int p) = 2 ^ nat (52 - ?e - int p)"
    using e by (simp add: power_int_def)
  finally have "?v / 2 powi (?e - 52) = of_int (j * 2 ^ nat (52 - ?e - int p))"
    by simp
  then show ?thesis by (rule round_double_multiple)
qed



lemma scale_products_exact:
  assumes "75 * (k * k) < 2 ^ 53"
  shows "round_double (round_double (300 * (real_of_int k / 256)) * (real_of_int k / 256))
     = 300 * (real_of_int k / 256) * (real_of_int k / 256)"
proof -
  have small: "\<bar>k\<bar> \<le> k * k"
  proof (cases "k = 0")
    case False
    then have "\<bar>k\<bar> * 1 \<le> \<bar>k\<bar> * \<bar>k\<bar>" by (intro mult_left_mono) auto
    then show ?thesis by simp
  qed simp
  have first: "\<bar>75 * k\<bar> < 2 ^ 53" using assms small by (simp add: abs_mult)
  have second: "\<bar>75 * (k * k)\<bar> < 2 ^ 53" using assms by (simp add: abs_mult)
  have "300 * (real_of_int k / 256) = real_of_int (75 * k) / 2 ^ 6" by simp
  moreover have "round_double (real_of_int (75 * k) / 2 ^ 6) = real_of_int (75 * k) / 2 ^ 6"
    using first by (intro round_double_dyadic) simp_all
  ultimately have one: "round_double (300 * (real_of_int k / 256)) = 300 * (real_of_int k / 256)"
    by (simp only:)
  have "300 * (real_of_int k / 256) * (real_of_int k / 256) = real_of_int (75 * (k * k)) / 2 ^ 14"
    by simp
  moreover have "round_double (real_of_int (75 * (k * k)) / 2 ^ 14)
      = real_of_int (75 * (k * k)) / 2 ^ 14"
    using second by (intro round_double_dyadic) simp_all
  ultimately show ?thesis unfolding one by (simp only:)
qed

lemma scale_offset_exact:
  assumes "\<bar>k * c\<bar> < 2 ^ 53"
  shows "round_double (real_of_int k / 256 * real_of_int c) = real_of_int k / 256 * real_of_int c"
proof -
  have "real_of_int k / 256 * real_of_int c = real_of_int (k * c) / 2 ^ 8" by simp
  moreover have "round_double (real_of_int (k * c) / 2 ^ 8) = real_of_int (k * c) / 2 ^ 8"
    using assms by (intro round_double_dyadic) simp_all
  ultimately show ?thesis by (simp only:)
qed

section \<open>The sampler counts the pixels of the rectangle\<close>

lemma int_interval_step: "p < (n::int) \<Longrightarrow> {p..<n} = insert p {p + 1..<n}"
  by auto

lemma white_rectangle_row_sum:
  "white_rectangle_row pixel xs c (3 * p) (w, nw) =
     (w + (\<Sum>q\<in>{p..<xs}. if white_pixel pixel (3 * q) c then 1 else 0),
      nw + (\<Sum>q\<in>{p..<xs}. if white_pixel pixel (3 * q) c then 0 else 1))"
proof (induction "nat (xs - p)" arbitrary: p w nw)
  case 0
  then have "xs \<le> p" by simp
  then show ?case by (simp add: white_rectangle_row.simps [of _ _ _ "3 * p"])
next
  case (Suc n)
  then have lt: "p < xs" and n: "n = nat (xs - (p + 1))" by auto
  have IH: "white_rectangle_row pixel xs c (3 * p + 3) (w', nw') =
     (w' + (\<Sum>q\<in>{p + 1..<xs}. if white_pixel pixel (3 * q) c then 1 else 0),
      nw' + (\<Sum>q\<in>{p + 1..<xs}. if white_pixel pixel (3 * q) c then 0 else 1))" for w' nw'
    using Suc.hyps(1) [OF n, of w' nw'] by (simp add: distrib_left)
  show ?case
    unfolding white_rectangle_row.simps [of pixel xs c "3 * p" w nw] int_interval_step [OF lt]
    using lt by (simp add: IH)
qed

lemma white_pixel_ptr_add:
  "white_pixel (ptr_add data (i * wrap + 3 * x (top_left r))) (3 * q) c
     = white_pixel data (pixel_offset wrap r (i, q)) c"
  by (simp add: white_pixel_def ptr_add_def pixel_offset_def add.assoc)

lemma white_rectangle_rows_sum:
  "white_rectangle_rows data wrap r c i (w, nw) =
     (w + (\<Sum>k\<in>{i..<y (top_left r) + y_size r}. \<Sum>q\<in>{0..<x_size r}.
             if white_pixel data (pixel_offset wrap r (k, q)) c then 1 else 0),
      nw + (\<Sum>k\<in>{i..<y (top_left r) + y_size r}. \<Sum>q\<in>{0..<x_size r}.
             if white_pixel data (pixel_offset wrap r (k, q)) c then 0 else 1))"
proof (induction "nat (y (top_left r) + y_size r - i)" arbitrary: i w nw)
  case 0
  then have "y (top_left r) + y_size r \<le> i" by simp
  then show ?case by (simp add: white_rectangle_rows.simps [of _ _ _ _ i])
next
  case (Suc n)
  then have lt: "i < y (top_left r) + y_size r"
    and n: "n = nat (y (top_left r) + y_size r - (i + 1))" by auto
  have row: "white_rectangle_row (ptr_add data (i * wrap + 3 * x (top_left r))) (x_size r) c 0 (w, nw)
      = (w + (\<Sum>q\<in>{0..<x_size r}. if white_pixel data (pixel_offset wrap r (i, q)) c then 1 else 0),
         nw + (\<Sum>q\<in>{0..<x_size r}. if white_pixel data (pixel_offset wrap r (i, q)) c then 0 else 1))"
    using white_rectangle_row_sum [of "ptr_add data (i * wrap + 3 * x (top_left r))" "x_size r" c 0 w nw]
    by (simp add: white_pixel_ptr_add)
  show ?case
    unfolding white_rectangle_rows.simps [of data wrap r c i "(w, nw)"] int_interval_step [OF lt] row
    using lt by (simp add: Suc.hyps(1) [OF n])
qed

lemma sum_indicator_card:
  "finite A \<Longrightarrow> (\<Sum>a\<in>A. if P a then 1 else 0) = int (card {a \<in> A. P a})"
  by (simp add: sum.If_cases Int_def)

lemma sum_rectangle_pixels:
  "(\<Sum>k\<in>{y (top_left r)..<y (top_left r) + y_size r}. \<Sum>q\<in>{0..<x_size r}. if P (k, q) then 1 else 0)
     = int (card {ip \<in> rectangle_pixels r. P ip})"
proof -
  have "(\<Sum>k\<in>{y (top_left r)..<y (top_left r) + y_size r}. \<Sum>q\<in>{0..<x_size r}. if P (k, q) then 1 else (0::int))
         = (\<Sum>ip\<in>rectangle_pixels r. if P ip then 1 else 0)"
    by (simp add: rectangle_pixels_def sum.cartesian_product)
  also have "\<dots> = int (card {ip \<in> rectangle_pixels r. P ip})"
    by (rule sum_indicator_card) (simp add: rectangle_pixels_def)
  finally show ?thesis .
qed

lemma white_pixel_iff:
  "white_pixel data k c \<longleftrightarrow> (\<forall>ch\<in>{0, 1, 2}. c < uint (data (k + ch)))"
  by (simp add: white_pixel_def)

lemma counts_code:
  "white_count data wrap r c
     = card {ip \<in> rectangle_pixels r. white_pixel data (pixel_offset wrap r ip) c}"
  "not_white_count data wrap r c
     = card {ip \<in> rectangle_pixels r. \<not> white_pixel data (pixel_offset wrap r ip) c}"
  by (simp_all only: white_count_def not_white_count_def white_pixel_iff)

lemma white_rectangle_rows_counts:
  "white_rectangle_rows data wrap r c (y (top_left r)) (0, 0) =
     (int (white_count data wrap r c), int (not_white_count data wrap r c))"
proof -
  have nw: "(if white_pixel data (pixel_offset wrap r (k, q)) c then 0 else (1::int))
        = (if \<not> white_pixel data (pixel_offset wrap r (k, q)) c then 1 else 0)" for k q
    by simp
  show ?thesis
    unfolding white_rectangle_rows_sum nw counts_code
    using sum_rectangle_pixels [where r = r and P = "\<lambda>ip. white_pixel data (pixel_offset wrap r ip) c"]
      sum_rectangle_pixels [where r = r and P = "\<lambda>ip. \<not> white_pixel data (pixel_offset wrap r ip) c"]
    by simp
qed

lemma white_rectangle_iff:
  "white_rectangle data wrap r t c
     = (round_double (t * real (not_white_count data wrap r c))
          \<le> real (white_count data wrap r c))"
  by (simp add: white_rectangle_def white_rectangle_rows_counts not_less)

lemma rectangle_pixels_empty:
  "x_size r \<le> 0 \<or> y_size r \<le> 0 \<Longrightarrow> rectangle_pixels r = {}"
  by (auto simp: rectangle_pixels_def)

lemma card_rectangle_pixels:
  "card (rectangle_pixels r) = nat (y_size r) * nat (x_size r)"
  by (simp add: rectangle_pixels_def card_cartesian_product)

lemma counts_partition:
  "white_count data wrap r c + not_white_count data wrap r c = card (rectangle_pixels r)"
proof -
  let ?W = "{ip \<in> rectangle_pixels r. white_pixel data (pixel_offset wrap r ip) c}"
  let ?N = "{ip \<in> rectangle_pixels r. \<not> white_pixel data (pixel_offset wrap r ip) c}"
  have fin: "finite (rectangle_pixels r)" by (simp add: rectangle_pixels_def)
  have "card (?W \<union> ?N) = card ?W + card ?N"
    by (rule card_Un_disjoint) (use fin in auto)
  moreover have "?W \<union> ?N = rectangle_pixels r" by auto
  ultimately show ?thesis by (simp add: counts_code)
qed

lemma no_white_pixels:
  assumes "\<And>ip. ip \<in> rectangle_pixels r \<Longrightarrow> \<not> white_pixel data (pixel_offset wrap r ip) c"
  shows "white_count data wrap r c = 0"
    and "not_white_count data wrap r c = card (rectangle_pixels r)"
proof -
  have none: "{ip \<in> rectangle_pixels r. white_pixel data (pixel_offset wrap r ip) c} = {}"
    using assms by blast
  show w0: "white_count data wrap r c = 0"
    unfolding counts_code none by simp
  show "not_white_count data wrap r c = card (rectangle_pixels r)"
    using counts_partition [of data wrap r c] w0 by simp
qed

lemma all_white_pixels:
  assumes "\<And>ip. ip \<in> rectangle_pixels r \<Longrightarrow> white_pixel data (pixel_offset wrap r ip) c"
  shows "white_count data wrap r c = card (rectangle_pixels r)"
    and "not_white_count data wrap r c = 0"
proof -
  have none: "{ip \<in> rectangle_pixels r. \<not> white_pixel data (pixel_offset wrap r ip) c} = {}"
    using assms by blast
  show n0: "not_white_count data wrap r c = 0"
    unfolding counts_code none by simp
  show "white_count data wrap r c = card (rectangle_pixels r)"
    using counts_partition [of data wrap r c] n0 by simp
qed

text \<open>
  On a frame of one colour, at a tolerance of 1 or more: a frame above the threshold is
  accepted, a frame at or below it is accepted only on an empty rectangle.
\<close>

lemma white_rectangle_constant:
  assumes "1 \<le> t"
  shows "white_rectangle (\<lambda>k. v) wrap r t c = (c < uint v \<or> y_size r \<le> 0 \<or> x_size r \<le> 0)"
proof (cases "c < uint v")
  case True
  then have "white_pixel (\<lambda>k. v) (pixel_offset wrap r ip) c" for ip
    by (simp add: white_pixel_def)
  then show ?thesis
    using True by (simp add: white_rectangle_iff all_white_pixels)
next
  case False
  then have none: "\<not> white_pixel (\<lambda>k. v) (pixel_offset wrap r ip) c" for ip
    by (simp add: white_pixel_def)
  show ?thesis
  proof (cases "y_size r \<le> 0 \<or> x_size r \<le> 0")
    case True
    then have "rectangle_pixels r = {}" by (intro rectangle_pixels_empty) auto
    then show ?thesis
      using True by (simp add: white_rectangle_iff no_white_pixels [OF none])
  next
    case nonempty: False
    define pixels where "pixels = nat (y_size r) * nat (x_size r)"
    have "1 \<le> pixels" using nonempty by (simp add: pixels_def Suc_le_eq)
    then have one: "1 \<le> real pixels"
      by (metis of_nat_1 of_nat_le_iff)
    have "1 * 1 \<le> t * real pixels"
      using assms one by (intro mult_mono) simp_all
    then have "1 \<le> t * real pixels" by simp
    then have "0 < round_double (t * real pixels)"
      by (rule round_double_positive)
    moreover have "not_white_count (\<lambda>k. v) wrap r c = pixels"
      by (simp only: no_white_pixels(2) [OF none] card_rectangle_pixels pixels_def)
    moreover have "white_count (\<lambda>k. v) wrap r c = 0"
      by (rule no_white_pixels(1) [OF none])
    ultimately have "\<not> white_rectangle (\<lambda>k. v) wrap r t c"
      by (simp only: white_rectangle_iff of_nat_0 not_le)
    then show ?thesis
      using False nonempty by simp
  qed
qed







text \<open>
  C1, as the specification states it, fails: on a rectangle of one white and one black
  pixel the sampler returns true at tolerance 1 and false at the larger tolerance 2.
\<close>

theorem white_rectangle_tolerance_counterexample:
  "white_rectangle (\<lambda>k. if k < 3 then 255 else 0) 6 
        \<lparr>top_left = \<lparr>x = 0, y = 0\<rparr>, x_size = 2, y_size = 1, magnification = 0\<rparr> 1 235
   \<and> \<not> white_rectangle (\<lambda>k. if k < 3 then 255 else 0) 6 
        \<lparr>top_left = \<lparr>x = 0, y = 0\<rparr>, x_size = 2, y_size = 1, magnification = 0\<rparr> 2 235"
  by (simp add: white_rectangle_def white_rectangle_rows.simps white_rectangle_row.simps
      white_pixel_def ptr_add_def)

text \<open>
  C1, amended. The parameter is a strictness: with the pixel data fixed, raising it can
  only turn a true result into false, never a false result into true. In other words,
  a rectangle accepted at a tolerance is accepted at every smaller one.
\<close>

theorem white_rectangle_antitone:
  "t \<le> t' \<Longrightarrow> white_rectangle data wrap rectangle t' c \<Longrightarrow> white_rectangle data wrap rectangle t c"
proof -
  assume le: "t \<le> t'" and acc: "white_rectangle data wrap rectangle t' c"
  have "t * real (not_white_count data wrap rectangle c)
          \<le> t' * real (not_white_count data wrap rectangle c)"
    using le by (rule mult_right_mono) simp
  then have "round_double (t * real (not_white_count data wrap rectangle c))
          \<le> round_double (t' * real (not_white_count data wrap rectangle c))"
    by (rule round_double_mono)
  also have "\<dots> \<le> real (white_count data wrap rectangle c)"
    using acc by (simp add: white_rectangle_iff)
  finally show ?thesis by (simp add: white_rectangle_iff)
qed

theorem white_rectangle_antitone_witness:
  "(1 / 2 :: real) \<le> 1
   \<and> white_rectangle (\<lambda>k. if k < 3 then 255 else 0) 6 
        \<lparr>top_left = \<lparr>x = 0, y = 0\<rparr>, x_size = 2, y_size = 1, magnification = 0\<rparr> 1 235
   \<and> white_rectangle (\<lambda>k. if k < 3 then 255 else 0) 6 
        \<lparr>top_left = \<lparr>x = 0, y = 0\<rparr>, x_size = 2, y_size = 1, magnification = 0\<rparr> (1 / 2) 235"
proof -
  have le: "(1 / 2 :: real) \<le> 1" by simp
  have acc: "white_rectangle (\<lambda>k. if k < 3 then 255 else 0) 6 
        \<lparr>top_left = \<lparr>x = 0, y = 0\<rparr>, x_size = 2, y_size = 1, magnification = 0\<rparr> 1 235"
    by (simp add: white_rectangle_def white_rectangle_rows.simps white_rectangle_row.simps
        white_pixel_def ptr_add_def)
  show ?thesis
    using le acc white_rectangle_antitone [OF le acc] by simp
qed

text \<open>
  C9. On a rectangle of zero width or zero height the sampler returns true, whatever
  the buffer, tolerance and threshold: both counts are zero. So a strip of the
  classifier whose scaled height rounds to 0 is accepted as white.
\<close>

theorem white_rectangle_empty:
  "(x_size rectangle = 0 \<or> y_size rectangle = 0
      \<longrightarrow> white_rectangle data wrap rectangle t c)
   \<and> (to_int (std_round (magnification top_screen * rows)) = 0
      \<longrightarrow> white_rectangle data wrap (white_line top_screen row rows) t c)"
proof -
  have empty: "white_rectangle data wrap r t c" if "x_size r = 0 \<or> y_size r = 0" for r
  proof -
    have "rectangle_pixels r = {}"
      using that by (intro rectangle_pixels_empty) auto
    then show ?thesis
      by (simp add: white_rectangle_iff white_count_def not_white_count_def)
  qed
  have "y_size (white_line top_screen row rows) = to_int (std_round (magnification top_screen * rows))"
    by (simp add: white_line_def)
  then show ?thesis using empty by auto
qed

theorem white_rectangle_empty_witness:
  "(x_size \<lparr>top_left = \<lparr>x = 3, y = 4\<rparr>, x_size = 5, y_size = 0, magnification = 0\<rparr> = 0
     \<or> y_size \<lparr>top_left = \<lparr>x = 3, y = 4\<rparr>, x_size = 5, y_size = 0, magnification = 0\<rparr> = 0)
   \<and> white_rectangle black_frame 24
        \<lparr>top_left = \<lparr>x = 3, y = 4\<rparr>, x_size = 5, y_size = 0, magnification = 0\<rparr> 50 225
   \<and> to_int (std_round (magnification (top_screen_coords \<lparr>width = 100, height = 60\<rparr>) * 1)) = 0
   \<and> white_rectangle black_frame 300
        (bottom_white_line (top_screen_coords \<lparr>width = 100, height = 60\<rparr>)) 1 235"
  using white_rectangle_empty [of "\<lparr>top_left = \<lparr>x = 3, y = 4\<rparr>, x_size = 5, y_size = 0, magnification = 0\<rparr>"
      black_frame 24 50 225 "top_screen_coords \<lparr>width = 100, height = 60\<rparr>" 1 183]
    white_rectangle_empty [of "\<lparr>top_left = \<lparr>x = 3, y = 4\<rparr>, x_size = 5, y_size = 0, magnification = 0\<rparr>"
      black_frame 300 1 235 "top_screen_coords \<lparr>width = 100, height = 60\<rparr>" 1 183]
  by (simp add: bottom_white_line_def top_screen_coords_def std_round_def to_int_def)

section \<open>The change detector counts the changed pixels\<close>

lemma compare_textboxes_row_sum:
  "compare_textboxes_row pixel_old pixel_new xs (3 * p) n =
     n + (\<Sum>q\<in>{p..<xs}. if changed_pixel pixel_old pixel_new (3 * q) then 1 else 0)"
proof (induction "nat (xs - p)" arbitrary: p n)
  case 0
  then have "xs \<le> p" by simp
  then show ?case by (simp add: compare_textboxes_row.simps [of _ _ _ "3 * p"])
next
  case (Suc m)
  then have lt: "p < xs" and m: "m = nat (xs - (p + 1))" by auto
  have IH: "compare_textboxes_row pixel_old pixel_new xs (3 * p + 3) n' =
     n' + (\<Sum>q\<in>{p + 1..<xs}. if changed_pixel pixel_old pixel_new (3 * q) then 1 else 0)" for n'
    using Suc.hyps(1) [OF m, of n'] by (simp add: distrib_left)
  show ?case
    unfolding compare_textboxes_row.simps [of pixel_old pixel_new xs "3 * p" n]
      int_interval_step [OF lt]
    using lt by (simp add: IH)
qed

lemma changed_pixel_ptr_add:
  "changed_pixel (ptr_add data_old (i * wrap + 3 * x (top_left r)))
      (ptr_add data_new (i * wrap + 3 * x (top_left r))) (3 * q)
     = changed_pixel data_old data_new (pixel_offset wrap r (i, q))"
  by (simp add: changed_pixel_def ptr_add_def pixel_offset_def add.assoc)

lemma compare_textboxes_rows_sum:
  "compare_textboxes_rows data_old data_new wrap r i n =
     n + (\<Sum>k\<in>{i..<y (top_left r) + y_size r}. \<Sum>q\<in>{0..<x_size r}.
            if changed_pixel data_old data_new (pixel_offset wrap r (k, q)) then 1 else 0)"
proof (induction "nat (y (top_left r) + y_size r - i)" arbitrary: i n)
  case 0
  then have "y (top_left r) + y_size r \<le> i" by simp
  then show ?case by (simp add: compare_textboxes_rows.simps [of _ _ _ _ i])
next
  case (Suc m)
  then have lt: "i < y (top_left r) + y_size r"
    and m: "m = nat (y (top_left r) + y_size r - (i + 1))" by auto
  have row: "compare_textboxes_row (ptr_add data_old (i * wrap + 3 * x (top_left r)))
        (ptr_add data_new (i * wrap + 3 * x (top_left r))) (x_size r) 0 n
      = n + (\<Sum>q\<in>{0..<x_size r}.
               if changed_pixel data_old data_new (pixel_offset wrap r (i, q)) then 1 else 0)"
    using compare_textboxes_row_sum [of "ptr_add data_old (i * wrap + 3 * x (top_left r))"
        "ptr_add data_new (i * wrap + 3 * x (top_left r))" "x_size r" 0 n]
    by (simp add: changed_pixel_ptr_add)
  show ?case
    unfolding compare_textboxes_rows.simps [of data_old data_new wrap r i n]
      int_interval_step [OF lt] row
    using lt by (simp add: Suc.hyps(1) [OF m])
qed

lemma changed_pixel_iff:
  "changed_pixel a b k
     \<longleftrightarrow> (\<exists>ch\<in>{0, 1, 2}. 50 < \<bar>uint (a (k + ch)) - uint (b (k + ch))\<bar>)"
  by (auto simp: changed_pixel_def channel_difference_def)

lemma changed_count_code:
  "changed_count data_old data_new wrap top_screen
     = card {ip \<in> rectangle_pixels (textbox_part top_screen).
               changed_pixel data_old data_new (pixel_offset wrap (textbox_part top_screen) ip)}"
  by (simp only: changed_count_def changed_pixel_iff)

lemma compare_textboxes_iff:
  "compare_textboxes data_old data_new wrap top_screen
     = (real (changed_count data_old data_new wrap top_screen)
          > 300 * magnification top_screen * magnification top_screen)"
  unfolding compare_textboxes_def Let_def compare_textboxes_rows_sum changed_count_code
  using sum_rectangle_pixels [where r = "textbox_part top_screen"
      and P = "\<lambda>ip. changed_pixel data_old data_new (pixel_offset wrap (textbox_part top_screen) ip)"]
  by simp

lemma channel_difference_commute: "channel_difference a b = channel_difference b a"
  by (simp add: channel_difference_def)

lemma changed_pixel_commute: "changed_pixel a b k = changed_pixel b a k"
  by (simp add: changed_pixel_def channel_difference_commute [of "a _"])

lemma changed_pixel_same: "\<not> changed_pixel a a k"
  by (simp add: changed_pixel_def channel_difference_def)

text \<open>
  C5. The change detector returns true exactly when the number of pixels of the textbox
  content rectangle that differ by more than 50 in at least one channel is greater than
  300 times the square of the scale. It is symmetric in its two frames, and false on
  two identical frames.
\<close>

theorem compare_textboxes_count:
  "compare_textboxes data_old data_new wrap top_screen
     = (real (changed_count data_old data_new wrap top_screen)
          > 300 * magnification top_screen * magnification top_screen)
   \<and> compare_textboxes data_old data_new wrap top_screen
       = compare_textboxes data_new data_old wrap top_screen
   \<and> \<not> compare_textboxes data_old data_old wrap top_screen"
proof (intro conjI)
  show "compare_textboxes data_old data_new wrap top_screen
     = (real (changed_count data_old data_new wrap top_screen)
          > 300 * magnification top_screen * magnification top_screen)"
    by (rule compare_textboxes_iff)
  have "changed_count data_old data_new wrap top_screen
          = changed_count data_new data_old wrap top_screen"
    unfolding changed_count_code changed_pixel_commute [of data_old data_new] ..
  then show "compare_textboxes data_old data_new wrap top_screen
       = compare_textboxes data_new data_old wrap top_screen"
    by (simp add: compare_textboxes_iff)
  have "changed_count data_old data_old wrap top_screen = 0"
    by (simp add: changed_count_code changed_pixel_same)
  moreover have "0 \<le> 300 * magnification top_screen * magnification top_screen"
    by (simp add: mult.assoc)
  ultimately show "\<not> compare_textboxes data_old data_old wrap top_screen"
    by (simp add: compare_textboxes_iff)
qed

text \<open>
  The detector does fire: on an 8 by 5 stream all five pixels of the textbox content
  rectangle differ between a black and a white frame, and 5 is above the threshold.
\<close>

theorem compare_textboxes_count_witness:
  "changed_count black_frame white_frame 24 (top_screen_coords \<lparr>width = 8, height = 5\<rparr>) = 5
   \<and> compare_textboxes black_frame white_frame 24 (top_screen_coords \<lparr>width = 8, height = 5\<rparr>)
   \<and> compare_textboxes white_frame black_frame 24 (top_screen_coords \<lparr>width = 8, height = 5\<rparr>)
   \<and> \<not> compare_textboxes black_frame black_frame 24 (top_screen_coords \<lparr>width = 8, height = 5\<rparr>)"
proof -
  have part: "textbox_part (top_screen_coords \<lparr>width = 8, height = 5\<rparr>)
     = \<lparr>top_left = \<lparr>x = 2, y = 4\<rparr>, x_size = 5, y_size = 1, magnification = 0\<rparr>"
    by (simp add: textbox_part_def top_screen_coords_def std_round_def to_int_def)
  have channel: "\<exists>ch::int. ch = 0 \<or> ch = 1 \<or> ch = 2" by auto
  have five: "changed_count black_frame white_frame 24
      (top_screen_coords \<lparr>width = 8, height = 5\<rparr>) = 5"
    by (simp add: changed_count_def part card_rectangle_pixels channel)
  note count = compare_textboxes_count [of black_frame white_frame 24
      "top_screen_coords \<lparr>width = 8, height = 5\<rparr>"]
  have "300 * magnification (top_screen_coords \<lparr>width = 8, height = 5\<rparr>)
          * magnification (top_screen_coords \<lparr>width = 8, height = 5\<rparr>)
        < real (changed_count black_frame white_frame 24
            (top_screen_coords \<lparr>width = 8, height = 5\<rparr>))"
    unfolding five by (simp add: top_screen_coords_def)
  then have fires: "compare_textboxes black_frame white_frame 24
      (top_screen_coords \<lparr>width = 8, height = 5\<rparr>)"
    using count by blast
  then have "compare_textboxes white_frame black_frame 24
      (top_screen_coords \<lparr>width = 8, height = 5\<rparr>)"
    using count by blast
  moreover have "\<not> compare_textboxes black_frame black_frame 24
      (top_screen_coords \<lparr>width = 8, height = 5\<rparr>)"
    using count by blast
  ultimately show ?thesis using five fires by blast
qed

section \<open>The geometry has no precondition\<close>

text \<open>
  C7, as the specification states it, fails: \<^verbatim>\<open>top_screen_coords\<close> has no check
  and no way to signal anything. For a stream of width 0 and height 0 it returns the
  empty region with scale 0.
\<close>

theorem top_screen_coords_zero:
  "top_screen_coords \<lparr>width = 0, height = 0\<rparr>
     = \<lparr>top_left = \<lparr>x = 0, y = 0\<rparr>, x_size = 0, y_size = 0, magnification = 0\<rparr>"
  by (simp add: top_screen_coords_def)

text \<open>A negative size goes through as well; the division truncates towards zero.\<close>

lemma top_screen_coords_negative:
  "top_screen_coords \<lparr>width = - 5, height = - 3\<rparr>
     = \<lparr>top_left = \<lparr>x = - 1, y = 0\<rparr>, x_size = - 4, y_size = - 3, magnification = - 1 / 64\<rparr>"
  by (simp add: top_screen_coords_def signed_divide_int_def)

text \<open>
  C7, amended. For every width and height, positive or not, the resolver returns the
  region with left edge at the width divided by 4 (C division, which for a width that
  is not negative is the division rounding down), top edge 0, the rest of the width,
  the full height, and the region width divided by 256 as scale.
\<close>

theorem top_screen_coords_total:
  "x (top_left (top_screen_coords dec_ctx)) = width dec_ctx sdiv 4
   \<and> y (top_left (top_screen_coords dec_ctx)) = 0
   \<and> x_size (top_screen_coords dec_ctx) = width dec_ctx - width dec_ctx sdiv 4
   \<and> y_size (top_screen_coords dec_ctx) = height dec_ctx
   \<and> magnification (top_screen_coords dec_ctx)
       = real_of_int (x_size (top_screen_coords dec_ctx)) / 256
   \<and> (0 \<le> width dec_ctx \<longrightarrow> x (top_left (top_screen_coords dec_ctx)) = width dec_ctx div 4)"
  by (simp add: top_screen_coords_def signed_divide_int_def sgn_if)

theorem top_screen_coords_total_witness:
  "top_screen_coords \<lparr>width = 800, height = 480\<rparr>
     = \<lparr>top_left = \<lparr>x = 200, y = 0\<rparr>, x_size = 600, y_size = 480, magnification = 2.34375\<rparr>"
  using top_screen_coords_total [of "\<lparr>width = 800, height = 480\<rparr>"]
  by (cases "top_screen_coords \<lparr>width = 800, height = 480\<rparr>") auto

section \<open>The first three checks of the classifier\<close>

lemma textbox_bottom_not_white:
  "\<not> white_rectangle data wrap (bottom_white_line ts) 1 235
     \<Longrightarrow> textbox data wrap ts = (0, [bottom_white_line ts])"
  by (simp add: textbox_def sample_def)

lemma textbox_left_white:
  "white_rectangle data wrap (bottom_white_line ts) 1 235
     \<Longrightarrow> white_rectangle data wrap (left_border ts) 1 235
     \<Longrightarrow> textbox data wrap ts = (0, [bottom_white_line ts, left_border ts])"
  by (simp add: textbox_def sample_def)

lemma textbox_right_white:
  "white_rectangle data wrap (bottom_white_line ts) 1 235
     \<Longrightarrow> \<not> white_rectangle data wrap (left_border ts) 1 235
     \<Longrightarrow> white_rectangle data wrap (right_border ts) 1 235
     \<Longrightarrow> textbox data wrap ts = (0, [bottom_white_line ts, left_border ts, right_border ts])"
  by (simp add: textbox_def sample_def)

text \<open>
  C6. The classifier returns 0 (no textbox) when the thin bottom strip is not white at
  tolerance 1 and threshold 235, and then the bottom strip is the only rectangle it
  samples; and it returns 0 when the left border strip is white, and when the right
  border strip is white, each at tolerance 1 and threshold 235.
\<close>

theorem textbox_none:
  "(\<not> white_rectangle data wrap (bottom_white_line top_screen) 1 235
      \<longrightarrow> textbox data wrap top_screen = (0, [bottom_white_line top_screen]))
   \<and> (white_rectangle data wrap (left_border top_screen) 1 235
      \<longrightarrow> fst (textbox data wrap top_screen) = 0)
   \<and> (white_rectangle data wrap (right_border top_screen) 1 235
      \<longrightarrow> fst (textbox data wrap top_screen) = 0)"
proof (intro conjI impI)
  assume "\<not> white_rectangle data wrap (bottom_white_line top_screen) 1 235"
  then show "textbox data wrap top_screen = (0, [bottom_white_line top_screen])"
    by (rule textbox_bottom_not_white)
next
  assume left: "white_rectangle data wrap (left_border top_screen) 1 235"
  show "fst (textbox data wrap top_screen) = 0"
  proof (cases "white_rectangle data wrap (bottom_white_line top_screen) 1 235")
    case True
    then show ?thesis using left by (simp add: textbox_left_white)
  next
    case False
    then show ?thesis by (simp add: textbox_bottom_not_white)
  qed
next
  assume right: "white_rectangle data wrap (right_border top_screen) 1 235"
  show "fst (textbox data wrap top_screen) = 0"
  proof (cases "white_rectangle data wrap (bottom_white_line top_screen) 1 235")
    case False
    then show ?thesis by (simp add: textbox_bottom_not_white)
  next
    case bottom: True
    show ?thesis
    proof (cases "white_rectangle data wrap (left_border top_screen) 1 235")
      case True
      then show ?thesis using bottom by (simp add: textbox_left_white)
    next
      case False
      then show ?thesis using bottom right by (simp add: textbox_right_white)
    qed
  qed
qed

lemma strips_171:
  "bottom_white_line (top_screen_coords \<lparr>width = 171, height = 100\<rparr>)
     = \<lparr>top_left = \<lparr>x = 56, y = 92\<rparr>, x_size = 84, y_size = 1, magnification = 0\<rparr>"
  by (simp add: bottom_white_line_def white_line_def x_white_start_def x_white_length_def
      top_screen_coords_def std_round_def to_int_def)

lemma strips_22:
  "bottom_white_line small_screen
     = \<lparr>top_left = \<lparr>x = 7, y = 12\<rparr>, x_size = 11, y_size = 0, magnification = 0\<rparr>"
  "left_border small_screen
     = \<lparr>top_left = \<lparr>x = 5, y = 10\<rparr>, x_size = 1, y_size = 3, magnification = 0\<rparr>"
  "right_border small_screen
     = \<lparr>top_left = \<lparr>x = 21, y = 10\<rparr>, x_size = 1, y_size = 3, magnification = 0\<rparr>"
  by (simp_all add: bottom_white_line_def left_border_def right_border_def white_line_def
      x_white_start_def x_white_length_def top_screen_coords_def std_round_def to_int_def)

lemma striped_borders:
  "white_rectangle (\<lambda>k. if k mod 66 < 63 then 0 else 255) 66
     \<lparr>top_left = \<lparr>x = 21, y = 10\<rparr>, x_size = 1, y_size = 3, magnification = 0\<rparr> 1 235"
  "\<not> white_rectangle (\<lambda>k. if k mod 66 < 63 then 0 else 255) 66
     \<lparr>top_left = \<lparr>x = 5, y = 10\<rparr>, x_size = 1, y_size = 3, magnification = 0\<rparr> 1 235"
  by (simp_all add: white_rectangle_def white_rectangle_rows.simps white_rectangle_row.simps
      white_pixel_def ptr_add_def)

theorem textbox_none_witness:
  "textbox black_frame 513 (top_screen_coords \<lparr>width = 171, height = 100\<rparr>)
     = (0, [\<lparr>top_left = \<lparr>x = 56, y = 92\<rparr>, x_size = 84, y_size = 1, magnification = 0\<rparr>])
   \<and> white_rectangle white_frame 66
        (left_border small_screen) 1 235
   \<and> fst (textbox white_frame 66 small_screen) = 0
   \<and> white_rectangle (\<lambda>k. if k mod 66 < 63 then 0 else 255) 66
        (right_border small_screen) 1 235
   \<and> \<not> white_rectangle (\<lambda>k. if k mod 66 < 63 then 0 else 255) 66
        (left_border small_screen) 1 235
   \<and> fst (textbox (\<lambda>k. if k mod 66 < 63 then 0 else 255) 66
        small_screen) = 0"
proof -
  have bottom: "\<not> white_rectangle black_frame 513
      (bottom_white_line (top_screen_coords \<lparr>width = 171, height = 100\<rparr>)) 1 235"
    by (simp add: strips_171 white_rectangle_constant)
  have left: "white_rectangle white_frame 66
      (left_border small_screen) 1 235"
    by (simp add: strips_22 white_rectangle_constant)
  have right: "white_rectangle (\<lambda>k. if k mod 66 < 63 then 0 else 255) 66
      (right_border small_screen) 1 235"
    and not_left: "\<not> white_rectangle (\<lambda>k. if k mod 66 < 63 then 0 else 255) 66
      (left_border small_screen) 1 235"
    by (simp_all add: strips_22 striped_borders)
  show ?thesis
    using bottom left right not_left
      textbox_none [of black_frame 513 "top_screen_coords \<lparr>width = 171, height = 100\<rparr>"]
      textbox_none [of white_frame 66 small_screen]
      textbox_none [of "\<lambda>k. if k mod 66 < 63 then 0 else 255" 66
        small_screen]
    by (simp add: strips_171)
qed

section \<open>The state machine\<close>

lemma decode_step_after_scroll:
  "old_textbox s = 2 \<or> old_textbox s = 3 \<or> old_textbox s = 4 \<Longrightarrow>
   decode_step ocr top_screen wrap data new_textbox s
     = s\<lparr> only_second_line := True,
          insta_textbox := insta_textbox s \<and> new_textbox \<noteq> 0,
          old_frame := copy_data (old_frame s) data wrap top_screen,
          old_textbox := new_textbox \<rparr>"
  by (elim disjE; cases "new_textbox = 0") (simp_all add: decode_step_def Let_def)

lemma decode_step_flicker:
  "old_textbox s = 1 \<or> old_textbox s = 5 \<Longrightarrow> insta_textbox s \<Longrightarrow>
   decode_step ocr top_screen wrap data 0 s
     = s\<lparr> insta_textbox := False,
          old_frame := copy_data (old_frame s) data wrap top_screen,
          old_textbox := 0 \<rparr>"
  by (elim disjE)
    (simp_all add: decode_step_def Let_def textbox_closed_def textbox_changed_def
      insta_textbox_changed_def scroll_began_def)

lemma decode_step_no_textbox:
  "\<not> insta_textbox (decode_step ocr top_screen wrap data 0 s)"
  by (simp add: decode_step_def Let_def)

text \<open>
  The two ways an open textbox is captured when \<open>insta_textbox\<close> is clear. When it
  closes, the capture follows \<open>only_second_line\<close>; when a scroll begins, it does not.
\<close>

lemma decode_step_closes:
  "old_textbox s = 1 \<or> old_textbox s = 5 \<Longrightarrow> \<not> insta_textbox s \<Longrightarrow>
   captures (decode_step ocr top_screen wrap data 0 s)
     = captures s @ [if only_second_line s then Second_line_capture Old_frame
                     else Textbox_capture Old_frame]
   \<and> \<not> only_second_line (decode_step ocr top_screen wrap data 0 s)"
  by (elim disjE)
    (simp_all add: decode_step_def Let_def textbox_closed_def textbox_changed_def
      insta_textbox_changed_def scroll_began_def capture_old_frame_def)

lemma decode_step_scroll_begins:
  "old_textbox s = 1 \<or> old_textbox s = 5 \<Longrightarrow> \<not> insta_textbox s \<Longrightarrow>
   new_textbox = 2 \<or> new_textbox = 3 \<or> new_textbox = 4 \<Longrightarrow>
   decode_step ocr top_screen wrap data new_textbox s
     = s\<lparr> output_file := output_file s @ ocr (save_textbox (old_frame s) wrap top_screen),
          captures := captures s @ [Textbox_capture Old_frame],
          old_frame := copy_data (old_frame s) data wrap top_screen,
          old_textbox := new_textbox \<rparr>"
  by (elim disjE)
    (simp_all add: decode_step_def Let_def textbox_closed_def textbox_changed_def
      insta_textbox_changed_def scroll_began_def)

lemma old_frame_capture_old_frame [simp]:
  "old_frame (capture_old_frame ocr wrap top_screen s) = old_frame s"
  by (simp add: capture_old_frame_def)

lemma old_frame_capture_rgb_frame [simp]:
  "old_frame (capture_rgb_frame ocr data wrap top_screen s) = old_frame s"
  by (simp add: capture_rgb_frame_def Let_def)

lemma old_frame_textbox_closed [simp]:
  "old_frame (textbox_closed ocr top_screen wrap new_textbox s) = old_frame s"
  by (simp add: textbox_closed_def)

lemma old_frame_textbox_changed [simp]:
  "old_frame (textbox_changed ocr top_screen wrap data new_textbox s) = old_frame s"
  by (simp add: textbox_changed_def)

lemma old_frame_insta_textbox_changed [simp]:
  "old_frame (insta_textbox_changed top_screen wrap data new_textbox s) = old_frame s"
  by (simp add: insta_textbox_changed_def)

lemma old_frame_scroll_began [simp]:
  "old_frame (scroll_began ocr top_screen wrap new_textbox s) = old_frame s"
  by (simp add: scroll_began_def)

lemma old_frame_decode_step:
  "old_frame (decode_step ocr top_screen wrap data new_textbox s)
     = copy_data (old_frame s) data wrap top_screen"
  by (simp add: decode_step_def Let_def)

subsection \<open>The small stream: a black frame opens a textbox, a white frame shows none\<close>

lemma part_22:
  "textbox_part small_screen
     = \<lparr>top_left = \<lparr>x = 6, y = 10\<rparr>, x_size = 15, y_size = 2, magnification = 0\<rparr>"
  by (simp add: textbox_part_def top_screen_coords_def std_round_def to_int_def)

lemma lines_22:
  "mid_white_line small_screen
     = \<lparr>top_left = \<lparr>x = 7, y = 11\<rparr>, x_size = 11, y_size = 0, magnification = 0\<rparr>"
  "top_white_line small_screen
     = \<lparr>top_left = \<lparr>x = 7, y = 10\<rparr>, x_size = 11, y_size = 0, magnification = 0\<rparr>"
  by (simp_all add: mid_white_line_def top_white_line_def white_line_def
      x_white_start_def x_white_length_def top_screen_coords_def std_round_def to_int_def)

lemma textbox_black_22:
  "fst (textbox black_frame 66 small_screen) = 1"
  by (simp add: textbox_def sample_def strips_22 lines_22 white_rectangle_constant)

lemma textbox_white_22:
  "fst (textbox white_frame 66 small_screen) = 0"
  by (simp add: textbox_def sample_def strips_22 white_rectangle_constant)

lemma empty_textbox_black_22:
  "\<not> empty_textbox black_frame 66 small_screen"
  by (simp add: empty_textbox_def part_22 white_rectangle_constant)

lemma opened_22:
  "decode_frame reads_hello small_screen 66 black_frame
      (initial_state black_frame)
     = \<lparr> old_textbox = 1, insta_textbox = True, only_second_line = False,
         old_frame = copy_data black_frame black_frame 66 small_screen,
         output_file = [], captures = [Textbox_capture Rgb_frame] \<rparr>"
  by (simp add: decode_frame_def decode_step_def textbox_black_22 initial_state_def
      capture_rgb_frame_def empty_textbox_black_22)

lemma scrolled_22:
  "decode_step reads_hello small_screen 66 black_frame 2
      (decode_frame reads_hello small_screen 66 black_frame (initial_state black_frame))
     = \<lparr> old_textbox = 2, insta_textbox = True, only_second_line = False,
         old_frame = copy_data (copy_data black_frame black_frame 66 small_screen) black_frame 66 small_screen,
         output_file = [], captures = [Textbox_capture Rgb_frame] \<rparr>"
  unfolding opened_22
  by (simp add: decode_step_def textbox_closed_def textbox_changed_def
      insta_textbox_changed_def scroll_began_def)

subsection \<open>Flicker suppression\<close>

text \<open>
  C4. Flicker suppression: when the previous frame showed an open textbox (code 1 or 5),
  \<open>insta_textbox\<close> is set and the current frame shows none, the loop body makes no
  capture and writes nothing to the output; and \<open>insta_textbox\<close> is clear after every
  frame that shows no textbox.
\<close>

theorem decode_frame_flicker:
  "fst (textbox data wrap top_screen) = 0 \<Longrightarrow>
   \<not> insta_textbox (decode_frame ocr top_screen wrap data s)
   \<and> ((old_textbox s = 1 \<or> old_textbox s = 5) \<and> insta_textbox s
      \<longrightarrow> captures (decode_frame ocr top_screen wrap data s) = captures s
          \<and> output_file (decode_frame ocr top_screen wrap data s) = output_file s)"
  by (simp add: decode_frame_def decode_step_flicker decode_step_no_textbox)

text \<open>
  The witness is the flicker scenario itself, on a 22 by 13 stream: a black frame whose
  text has five characters opens a textbox, then a white frame shows none.
\<close>

theorem decode_frame_flicker_witness:
  "old_textbox (decode_frame reads_hello small_screen 66 black_frame (initial_state black_frame)) = 1
   \<and> insta_textbox (decode_frame reads_hello small_screen 66 black_frame (initial_state black_frame))
   \<and> fst (textbox white_frame 66 small_screen) = 0
   \<and> captures (decode_frame reads_hello small_screen 66 white_frame
        (decode_frame reads_hello small_screen 66 black_frame (initial_state black_frame)))
       = [Textbox_capture Rgb_frame]
   \<and> output_file (decode_frame reads_hello small_screen 66 white_frame
        (decode_frame reads_hello small_screen 66 black_frame (initial_state black_frame))) = []
   \<and> \<not> insta_textbox (decode_frame reads_hello small_screen 66 white_frame
        (decode_frame reads_hello small_screen 66 black_frame (initial_state black_frame)))"
  using decode_frame_flicker [where data = white_frame and wrap = 66
      and top_screen = small_screen and ocr = reads_hello
      and s = "decode_frame reads_hello small_screen 66 black_frame (initial_state black_frame)"]
  by (simp add: opened_22 textbox_white_22)

subsection \<open>The frame after a scroll\<close>

text \<open>
  C8, as the specification states it, fails: setting \<open>only_second_line\<close> is not the
  only change. After a textbox opened with a text of five characters and began to
  scroll, \<open>insta_textbox\<close> is still set; a next frame without textbox clears it.
\<close>

theorem decode_frame_after_scroll_counterexample:
  "old_textbox (decode_step reads_hello small_screen 66 black_frame 2
      (decode_frame reads_hello small_screen 66 black_frame (initial_state black_frame))) = 2
   \<and> insta_textbox (decode_step reads_hello small_screen 66 black_frame 2
      (decode_frame reads_hello small_screen 66 black_frame (initial_state black_frame)))
   \<and> \<not> insta_textbox (decode_frame reads_hello small_screen 66 white_frame
      (decode_step reads_hello small_screen 66 black_frame 2
        (decode_frame reads_hello small_screen 66 black_frame (initial_state black_frame))))"
  unfolding scrolled_22
  by (simp add: decode_frame_def textbox_white_22 decode_step_def)

text \<open>
  C8, amended. When the previous frame showed a scroll (code 2, 3 or 4), the loop body
  makes no capture and writes nothing, whatever the current frame; besides the update
  of the history and of the previous code it sets \<open>only_second_line\<close>, and it
  clears \<open>insta_textbox\<close> when the current frame shows no textbox.
\<close>

theorem decode_frame_after_scroll:
  "old_textbox s = 2 \<or> old_textbox s = 3 \<or> old_textbox s = 4 \<Longrightarrow>
   captures (decode_frame ocr top_screen wrap data s) = captures s
   \<and> output_file (decode_frame ocr top_screen wrap data s) = output_file s
   \<and> only_second_line (decode_frame ocr top_screen wrap data s) = True
   \<and> insta_textbox (decode_frame ocr top_screen wrap data s)
       = (insta_textbox s \<and> fst (textbox data wrap top_screen) \<noteq> 0)
   \<and> old_frame (decode_frame ocr top_screen wrap data s)
       = copy_data (old_frame s) data wrap top_screen
   \<and> old_textbox (decode_frame ocr top_screen wrap data s) = fst (textbox data wrap top_screen)"
  by (simp add: decode_frame_def decode_step_after_scroll)

theorem decode_frame_after_scroll_witness:
  "captures (decode_frame reads_hello small_screen 66 white_frame
      (decode_step reads_hello small_screen 66 black_frame 2
        (decode_frame reads_hello small_screen 66 black_frame (initial_state black_frame))))
     = [Textbox_capture Rgb_frame]
   \<and> output_file (decode_frame reads_hello small_screen 66 white_frame
      (decode_step reads_hello small_screen 66 black_frame 2
        (decode_frame reads_hello small_screen 66 black_frame (initial_state black_frame)))) = []
   \<and> only_second_line (decode_frame reads_hello small_screen 66 white_frame
      (decode_step reads_hello small_screen 66 black_frame 2
        (decode_frame reads_hello small_screen 66 black_frame (initial_state black_frame))))
   \<and> old_textbox (decode_frame reads_hello small_screen 66 white_frame
      (decode_step reads_hello small_screen 66 black_frame 2
        (decode_frame reads_hello small_screen 66 black_frame (initial_state black_frame)))) = 0"
  using decode_frame_after_scroll [of
      "decode_step reads_hello small_screen 66 black_frame 2
        (decode_frame reads_hello small_screen 66 black_frame (initial_state black_frame))"
      reads_hello small_screen 66 white_frame]
  by (simp add: scrolled_22 textbox_white_22)

subsection \<open>The frame on which a scroll begins\<close>

lemma run_open:
  "decode_step reads_abc top_screen wrap data_1 1 (initial_state allocated)
     = \<lparr> old_textbox = 1, insta_textbox = False, only_second_line = False,
         old_frame = copy_data allocated data_1 wrap top_screen,
         output_file = [], captures = [Textbox_capture Rgb_frame] \<rparr>"
  by (simp add: decode_step_def initial_state_def capture_rgb_frame_def Let_def)

lemma run_open_scroll:
  "decode_step reads_abc top_screen wrap data_2 2
     (decode_step reads_abc top_screen wrap data_1 1 (initial_state allocated))
     = \<lparr> old_textbox = 2, insta_textbox = False, only_second_line = False,
         old_frame = copy_data (copy_data allocated data_1 wrap top_screen) data_2 wrap top_screen,
         output_file = ''abc'',
         captures = [Textbox_capture Rgb_frame, Textbox_capture Old_frame] \<rparr>"
  unfolding run_open
  by (simp add: decode_step_def textbox_closed_def textbox_changed_def
      insta_textbox_changed_def scroll_began_def)

lemma run_open_scroll_open:
  "decode_step reads_abc top_screen wrap data_3 1
     (decode_step reads_abc top_screen wrap data_2 2
        (decode_step reads_abc top_screen wrap data_1 1 (initial_state allocated)))
     = \<lparr> old_textbox = 1, insta_textbox = False, only_second_line = True,
         old_frame = copy_data (copy_data (copy_data allocated data_1 wrap top_screen)
                       data_2 wrap top_screen) data_3 wrap top_screen,
         output_file = ''abc'',
         captures = [Textbox_capture Rgb_frame, Textbox_capture Old_frame] \<rparr>"
  unfolding run_open_scroll
  by (simp add: decode_step_def)

text \<open>
  C2 on the code. When a scroll begins (code 2 after code 1) with \<open>insta_textbox\<close>
  clear and \<open>only_second_line\<close> set, the loop body captures the whole textbox of the
  previous frame, not its second line, and leaves \<open>only_second_line\<close> set. That state
  is reached from the start by frames classified 1, 2, 1; the fourth frame, classified
  2, then adds a second whole-textbox capture of the previous frame.
\<close>

theorem decode_step_scroll_whole_textbox:
  "decode_step ocr top_screen wrap data 2
      \<lparr> old_textbox = 1, insta_textbox = False, only_second_line = True,
        old_frame = old_data, output_file = written, captures = captured \<rparr>
     = \<lparr> old_textbox = 2, insta_textbox = False, only_second_line = True,
         old_frame = copy_data old_data data wrap top_screen,
         output_file = written @ ocr (save_textbox old_data wrap top_screen),
         captures = captured @ [Textbox_capture Old_frame] \<rparr>
   \<and> captures (decode_step reads_abc top_screen wrap data_4 2
        (decode_step reads_abc top_screen wrap data_3 1
          (decode_step reads_abc top_screen wrap data_2 2
            (decode_step reads_abc top_screen wrap data_1 1 (initial_state allocated)))))
       = [Textbox_capture Rgb_frame, Textbox_capture Old_frame, Textbox_capture Old_frame]
   \<and> only_second_line (decode_step reads_abc top_screen wrap data_4 2
        (decode_step reads_abc top_screen wrap data_3 1
          (decode_step reads_abc top_screen wrap data_2 2
            (decode_step reads_abc top_screen wrap data_1 1 (initial_state allocated)))))"
  unfolding run_open_scroll_open
  by (simp add: decode_step_def textbox_closed_def textbox_changed_def
      insta_textbox_changed_def scroll_began_def)

section \<open>The history update\<close>

lemma copy_data_row_eq:
  "copy_data_row old_data offset pixel xs (3 * p)
     = (\<lambda>k. if offset + 3 * p \<le> k \<and> k < offset + 3 * xs then pixel (k - offset) else old_data k)"
proof (induction "nat (xs - p)" arbitrary: p old_data)
  case 0
  then have "xs \<le> p" by simp
  then show ?case by (auto simp: copy_data_row.simps [of _ _ _ _ "3 * p"] fun_eq_iff)
next
  case (Suc m)
  then have lt: "p < xs" and m: "m = nat (xs - (p + 1))" by auto
  have IH: "copy_data_row old' offset pixel xs (3 * p + 3)
     = (\<lambda>k. if offset + (3 * p + 3) \<le> k \<and> k < offset + 3 * xs then pixel (k - offset) else old' k)"
    for old'
    using Suc.hyps(1) [OF m, of old'] by (simp add: distrib_left)
  show ?case
    unfolding copy_data_row.simps [of old_data offset pixel xs "3 * p"] IH
    using lt by (auto simp: fun_eq_iff)
qed

lemma copy_data_row_whole:
  "copy_data_row old_data offset (ptr_add data offset) xs 0
     = (\<lambda>k. if offset \<le> k \<and> k < offset + 3 * xs then data k else old_data k)"
proof -
  have row: "copy_data_row old_data offset (ptr_add data offset) xs 0
     = (\<lambda>k. if offset \<le> k \<and> k < offset + 3 * xs
            then ptr_add data offset (k - offset) else old_data k)"
    using copy_data_row_eq [of old_data offset "ptr_add data offset" xs 0] by simp
  show ?thesis
    unfolding row by (auto simp: ptr_add_def fun_eq_iff)
qed

lemma copy_data_rows_eq:
  "copy_data_rows old_data data wrap part i
     = (\<lambda>k. if \<exists>r j. k = r * wrap + 3 * x (top_left part) + j
                  \<and> i \<le> r \<and> r < y (top_left part) + y_size part
                  \<and> 0 \<le> j \<and> j < 3 * x_size part
            then data k else old_data k)"
proof (induction "nat (y (top_left part) + y_size part - i)" arbitrary: i old_data)
  case 0
  then have "y (top_left part) + y_size part \<le> i" by simp
  then show ?case by (auto simp: copy_data_rows.simps [of _ _ _ _ i] fun_eq_iff)
next
  case (Suc m)
  then have lt: "i < y (top_left part) + y_size part"
    and m: "m = nat (y (top_left part) + y_size part - (i + 1))" by auto
  let ?in_rows = "\<lambda>i k. \<exists>r j. k = r * wrap + 3 * x (top_left part) + j
                  \<and> i \<le> r \<and> r < y (top_left part) + y_size part
                  \<and> 0 \<le> j \<and> j < 3 * x_size part"
  let ?in_row = "\<lambda>k. i * wrap + 3 * x (top_left part) \<le> k
                  \<and> k < i * wrap + 3 * x (top_left part) + 3 * x_size part"
  have split: "?in_rows i k \<longleftrightarrow> ?in_row k \<or> ?in_rows (i + 1) k" for k
  proof
    assume "?in_rows i k"
    then obtain r j where rj: "k = r * wrap + 3 * x (top_left part) + j" "i \<le> r"
      "r < y (top_left part) + y_size part" "0 \<le> j" "j < 3 * x_size part" by blast
    show "?in_row k \<or> ?in_rows (i + 1) k"
    proof (cases "r = i")
      case True
      then show ?thesis using rj by simp
    next
      case False
      then have "i + 1 \<le> r" using rj by simp
      then show ?thesis using rj by blast
    qed
  next
    assume "?in_row k \<or> ?in_rows (i + 1) k"
    then show "?in_rows i k"
    proof
      assume row: "?in_row k"
      have "k = i * wrap + 3 * x (top_left part) + (k - (i * wrap + 3 * x (top_left part)))"
        by simp
      moreover have "0 \<le> k - (i * wrap + 3 * x (top_left part))"
        "k - (i * wrap + 3 * x (top_left part)) < 3 * x_size part"
        using row by simp_all
      ultimately show ?thesis using lt by (intro exI [of _ i] exI [of _ "k - (i * wrap + 3 * x (top_left part))"]) simp
    next
      assume "?in_rows (i + 1) k"
      then obtain r j where rj: "k = r * wrap + 3 * x (top_left part) + j" "i + 1 \<le> r"
      "r < y (top_left part) + y_size part" "0 \<le> j" "j < 3 * x_size part" by blast
      then have "i \<le> r" by simp
      then show ?thesis using rj by blast
    qed
  qed
  have "copy_data_rows old_data data wrap part i
      = (\<lambda>k. if ?in_rows (i + 1) k then data k
              else if ?in_row k then data k else old_data k)"
    unfolding copy_data_rows.simps [of old_data data wrap part i] copy_data_row_whole
      Suc.hyps(1) [OF m]
    by (simp only: lt if_True)
  also have "\<dots> = (\<lambda>k. if ?in_rows i k then data k else old_data k)"
  proof (rule ext)
    fix k
    define later where "later = ?in_rows (i + 1) k"
    define here where "here = ?in_row k"
    define both where "both = ?in_rows i k"
    have "both = (here \<or> later)"
      unfolding later_def here_def both_def by (rule split)
    then have "(if later then data k else if here then data k else old_data k)
        = (if both then data k else old_data k)"
      by simp
    then show "(if ?in_rows (i + 1) k then data k else if ?in_row k then data k else old_data k)
        = (if ?in_rows i k then data k else old_data k)"
      unfolding later_def here_def both_def .
  qed
  finally show ?case .
qed

lemma copy_data_eq:
  "copy_data old_data data wrap top_screen
     = (\<lambda>k. if k \<in> rectangle_bytes wrap (textbox_part top_screen) then data k else old_data k)"
  by (simp add: copy_data_def Let_def copy_data_rows_eq rectangle_bytes_def)

lemma row_column_unique:
  fixes r i b c w :: int
  assumes "r * w + b = i * w + c" "0 \<le> b" "b < w" "0 \<le> c" "c < w"
  shows "r = i \<and> b = c"
proof -
  have quotient: "(q * w + e) div w = q" if "0 \<le> e" "e < w" for q e
    using that by simp
  have "r = (r * w + b) div w"
    using assms(2,3) by (simp only: quotient)
  also have "\<dots> = (i * w + c) div w"
    by (simp only: assms(1))
  also have "\<dots> = i"
    using assms(4,5) by (simp only: quotient)
  finally have "r = i" .
  then show ?thesis using assms(1) by simp
qed

lemma rectangle_bytes_row_column:
  assumes "0 \<le> x (top_left part)" "3 * (x (top_left part) + x_size part) \<le> wrap"
    "0 \<le> b" "b < wrap" "r * wrap + b \<in> rectangle_bytes wrap part"
  shows "y (top_left part) \<le> r \<and> r < y (top_left part) + y_size part
    \<and> 3 * x (top_left part) \<le> b \<and> b < 3 * (x (top_left part) + x_size part)"
proof -
  from assms(5) obtain i j where ij: "r * wrap + b = i * wrap + (3 * x (top_left part) + j)"
    "y (top_left part) \<le> i" "i < y (top_left part) + y_size part" "0 \<le> j" "j < 3 * x_size part"
    by (auto simp: rectangle_bytes_def)
  have "r = i \<and> b = 3 * x (top_left part) + j"
    using ij(1) assms(3,4) by (rule row_column_unique) (use assms(1,2) ij(4,5) in simp_all)
  then show ?thesis using ij by simp
qed

text \<open>
  C10. The history update stores only into the bytes of the textbox content rectangle
  (reference offset 13, 152 and size 220 by 33, scaled): every other byte of the history
  buffer keeps its value, after \<^verbatim>\<open>copy_data\<close> and so after the whole loop body,
  and the bytes of the rectangle take the values of the current frame. When the
  rectangle lies within a row of \<open>wrap\<close> bytes, the bytes outside are those at a
  row or at a column outside the rectangle.
\<close>

theorem copy_data_outside:
  "(k \<notin> rectangle_bytes wrap (textbox_part top_screen)
      \<longrightarrow> copy_data old_data data wrap top_screen k = old_data k)
   \<and> (k \<in> rectangle_bytes wrap (textbox_part top_screen)
      \<longrightarrow> copy_data old_data data wrap top_screen k = data k)
   \<and> (k \<notin> rectangle_bytes wrap (textbox_part top_screen)
      \<longrightarrow> old_frame (decode_frame ocr top_screen wrap data s) k = old_frame s k)
   \<and> (0 \<le> x (top_left (textbox_part top_screen))
       \<and> 3 * (x (top_left (textbox_part top_screen)) + x_size (textbox_part top_screen)) \<le> wrap
       \<and> 0 \<le> b \<and> b < wrap
       \<and> \<not> (y (top_left (textbox_part top_screen)) \<le> r
            \<and> r < y (top_left (textbox_part top_screen)) + y_size (textbox_part top_screen)
            \<and> 3 * x (top_left (textbox_part top_screen)) \<le> b
            \<and> b < 3 * (x (top_left (textbox_part top_screen)) + x_size (textbox_part top_screen)))
      \<longrightarrow> copy_data old_data data wrap top_screen (r * wrap + b) = old_data (r * wrap + b))"
proof (intro conjI impI)
  assume "k \<notin> rectangle_bytes wrap (textbox_part top_screen)"
  then show "copy_data old_data data wrap top_screen k = old_data k"
    by (simp add: copy_data_eq)
next
  assume "k \<in> rectangle_bytes wrap (textbox_part top_screen)"
  then show "copy_data old_data data wrap top_screen k = data k"
    by (simp add: copy_data_eq)
next
  assume "k \<notin> rectangle_bytes wrap (textbox_part top_screen)"
  then show "old_frame (decode_frame ocr top_screen wrap data s) k = old_frame s k"
    by (simp add: decode_frame_def old_frame_decode_step copy_data_eq)
next
  let ?part = "textbox_part top_screen"
  assume h: "0 \<le> x (top_left ?part) \<and> 3 * (x (top_left ?part) + x_size ?part) \<le> wrap
       \<and> 0 \<le> b \<and> b < wrap
       \<and> \<not> (y (top_left ?part) \<le> r \<and> r < y (top_left ?part) + y_size ?part
            \<and> 3 * x (top_left ?part) \<le> b \<and> b < 3 * (x (top_left ?part) + x_size ?part))"
  have "r * wrap + b \<notin> rectangle_bytes wrap ?part"
  proof
    assume "r * wrap + b \<in> rectangle_bytes wrap ?part"
    then have "y (top_left ?part) \<le> r \<and> r < y (top_left ?part) + y_size ?part
            \<and> 3 * x (top_left ?part) \<le> b \<and> b < 3 * (x (top_left ?part) + x_size ?part)"
      using h by (intro rectangle_bytes_row_column) simp_all
    then show False using h by simp
  qed
  then show "copy_data old_data data wrap top_screen (r * wrap + b) = old_data (r * wrap + b)"
    by (simp add: copy_data_eq)
qed

lemma textbox_part_8_5:
  "textbox_part (top_screen_coords \<lparr>width = 8, height = 5\<rparr>)
     = \<lparr>top_left = \<lparr>x = 2, y = 4\<rparr>, x_size = 5, y_size = 1, magnification = 0\<rparr>"
  by (simp add: textbox_part_def top_screen_coords_def std_round_def to_int_def)

lemma rectangle_bytes_8_5:
  "rectangle_bytes 24 \<lparr>top_left = \<lparr>x = 2, y = 4\<rparr>, x_size = 5, y_size = 1, magnification = 0\<rparr>
     = {102..<117}"
proof -
  have "(\<exists>i j. k = i * 24 + 6 + j \<and> 4 \<le> i \<and> i < 5 \<and> 0 \<le> j \<and> j < 15)
      \<longleftrightarrow> 102 \<le> k \<and> k < 117" for k :: int
  proof
    assume "\<exists>i j. k = i * 24 + 6 + j \<and> 4 \<le> i \<and> i < 5 \<and> 0 \<le> j \<and> j < 15"
    then obtain i j where "k = i * 24 + 6 + j" "4 \<le> i" "i < 5" "0 \<le> j" "j < 15" by blast
    then show "102 \<le> k \<and> k < 117" by simp
  next
    assume "102 \<le> k \<and> k < 117"
    then have "k = 4 * 24 + 6 + (k - 102) \<and> (4::int) \<le> 4 \<and> (4::int) < 5 \<and> 0 \<le> k - 102 \<and> k - 102 < 15"
      by simp
    then show "\<exists>i j. k = i * 24 + 6 + j \<and> 4 \<le> i \<and> i < 5 \<and> 0 \<le> j \<and> j < 15"
      by blast
  qed
  then show ?thesis by (simp add: rectangle_bytes_def set_eq_iff)
qed

theorem copy_data_outside_witness:
  "copy_data black_frame white_frame 24 (top_screen_coords \<lparr>width = 8, height = 5\<rparr>) 0 = 0
   \<and> copy_data black_frame white_frame 24 (top_screen_coords \<lparr>width = 8, height = 5\<rparr>) 102 = 255
   \<and> old_frame (decode_frame (\<lambda>image. []) (top_screen_coords \<lparr>width = 8, height = 5\<rparr>) 24
        white_frame (initial_state black_frame)) 0 = 0
   \<and> copy_data black_frame white_frame 24 (top_screen_coords \<lparr>width = 8, height = 5\<rparr>)
        (4 * 24 + 21) = 0"
  using copy_data_outside [of 0 24 "top_screen_coords \<lparr>width = 8, height = 5\<rparr>"
      black_frame white_frame "\<lambda>image. []" "initial_state black_frame" 21 4]
    copy_data_outside [of 102 24 "top_screen_coords \<lparr>width = 8, height = 5\<rparr>"
      black_frame white_frame "\<lambda>image. []" "initial_state black_frame" 21 4]
  by (simp add: textbox_part_8_5 rectangle_bytes_8_5 initial_state_def)

end
